theory Spec2Isabelle
  imports Main "HOL-Library.Word"
begin

section \<open>Rename refactoring of a step (refactor.go)\<close>

text \<open>
  The theory embeds the functions of \<^verbatim>\<open>refactor.go\<close>. The functions the file calls but
  does not declare (the parser, the concept dictionary, the formatter, the file writer,
  the runner) are fields of the record \<open>env\<close>: the answers those collaborators give in
  one run. The types it uses but does not declare, and the two methods that rewrite a
  document (\<^verbatim>\<open>step.rename\<close>, \<^verbatim>\<open>specification.renameSteps\<close>), are modelled from the
  spec and marked so. A Go \<^verbatim>\<open>error\<close> is modelled by the text its \<^verbatim>\<open>Error()\<close> method
  yields; a nil slice and an empty slice are both \<open>[]\<close>.
\<close>

subsection \<open>Steps and the refactoring agent\<close>

text \<open>
  Modelled from the spec: the wire types \<^verbatim>\<open>Fragment\<close> and \<^verbatim>\<open>Parameter\<close> are declared in
  the package \<^verbatim>\<open>gauge_messages\<close>. By the spec's Data Model a fragment is either a
  literal-text fragment or a parameter fragment that holds a display value.
\<close>

datatype parameterType = Static | Dynamic | Special_String | Special_Table | Table

record parameter =
  ParameterType :: parameterType
  Value :: string

datatype fragment = TextFragment string | ParameterFragment parameter

datatype fragmentType = Fragment_Text | Fragment_Parameter

fun GetFragmentType :: "fragment \<Rightarrow> fragmentType" where
  "GetFragmentType (TextFragment t) = Fragment_Text"
| "GetFragmentType (ParameterFragment p) = Fragment_Parameter"

text \<open>
  Modelled from the spec: the struct \<^verbatim>\<open>step\<close> is declared outside \<^verbatim>\<open>refactor.go\<close>. The
  record holds the fields the file reads, as the spec's Step Signature has them: the
  line text, the text (\<open>val\<close> is the Go field \<^verbatim>\<open>value\<close>), the arguments and the
  fragments; \<open>stepIsConcept\<close> marks an occurrence that is a concept's own header. Of a
  step argument (\<^verbatim>\<open>*stepArg\<close>) the file only ever calls \<^verbatim>\<open>String()\<close>, so the argument
  type is a parameter \<open>'arg\<close> and \<^verbatim>\<open>String\<close> a function that is passed in.
\<close>

record 'arg step =
  lineText :: string
  val :: string
  args :: "'arg list"
  fragments :: "fragment list"
  stepIsConcept :: bool

record 'arg rephraseRefactorer =
  oldStep :: "'arg step"
  newStep :: "'arg step"
  isConcept :: bool

subsection \<open>The order of arguments\<close>

text \<open>
  \<^verbatim>\<open>SliceIndex\<close> counts \<open>i\<close> up from 0 while \<open>i < limit\<close>. A Go \<^verbatim>\<open>int\<close> has 64 bits;
  \<open>i\<close> never exceeds \<open>limit\<close>, so the increment cannot wrap and \<open>int\<close> is exact.
\<close>

function SliceIndex_from :: "int \<Rightarrow> int \<Rightarrow> (int \<Rightarrow> bool) \<Rightarrow> int" where
  "SliceIndex_from i limit predicate =
     (if i < limit then (if predicate i then i else SliceIndex_from (i + 1) limit predicate)
      else - 1)"
  by pat_completeness auto
termination
  by (relation "measure (\<lambda>(i, limit, predicate). nat (limit - i))") auto

definition SliceIndex :: "int \<Rightarrow> (int \<Rightarrow> bool) \<Rightarrow> int" where
  "SliceIndex limit predicate = SliceIndex_from 0 limit predicate"

text \<open>
  A Go \<^verbatim>\<open>map[int]int\<close> is a partial function; reading a missing key yields 0.
\<close>

definition mapIndex :: "(int \<rightharpoonup> int) \<Rightarrow> int \<Rightarrow> int" where
  "mapIndex m k = (case m k of None \<Rightarrow> 0 | Some v \<Rightarrow> v)"

text \<open>
  The loop of \<^verbatim>\<open>createOrderOfArgs\<close> over \<^verbatim>\<open>agent.newStep.args\<close>, from index \<open>i\<close> on.
  The predicate reads \<^verbatim>\<open>agent.oldStep.args[j]\<close> only for \<open>0 \<le> j < len\<close>.
\<close>

fun createOrderOfArgs_loop ::
  "('arg \<Rightarrow> string) \<Rightarrow> 'arg list \<Rightarrow> int \<Rightarrow> 'arg list \<Rightarrow> (int \<rightharpoonup> int) \<Rightarrow> (int \<rightharpoonup> int)" where
  "createOrderOfArgs_loop String oldArgs i [] orderMap = orderMap"
| "createOrderOfArgs_loop String oldArgs i (arg # rest) orderMap =
     createOrderOfArgs_loop String oldArgs (i + 1) rest
       (orderMap(i \<mapsto> SliceIndex (int (length oldArgs))
                         (\<lambda>j. String (oldArgs ! nat j) = String arg)))"

definition createOrderOfArgs :: "('arg \<Rightarrow> string) \<Rightarrow> 'arg rephraseRefactorer \<Rightarrow> (int \<rightharpoonup> int)" where
  "createOrderOfArgs String agent =
     createOrderOfArgs_loop String (args (oldStep agent)) 0 (args (newStep agent)) Map.empty"

subsection \<open>Results, parse results and wire messages\<close>

datatype panic = IndexOutOfRange

text \<open>A call either returns or panics; a panic unwinds through every caller.\<close>

datatype 'a outcome = Returns 'a | Panics panic

record refactoringResult =
  success :: bool
  specsChanged :: "string list"
  conceptsChanged :: "string list"
  runnerFilesChanged :: "string list"
  errors :: "string list"
  warnings :: "string list"

text \<open>
  Modelled from the spec: the structs \<^verbatim>\<open>warning\<close> and \<^verbatim>\<open>parseResult\<close> are declared
  outside \<^verbatim>\<open>refactor.go\<close>. By the spec's External Interfaces a parse result carries an ok
  flag, an error and a sequence of warnings: \<open>parseError\<close> is the text of
  \<^verbatim>\<open>parseResult.error.Error()\<close> and \<open>parseWarnings\<close> the Go field \<^verbatim>\<open>warnings\<close>.
\<close>

record warning =
  message :: string

record parseResult =
  ok :: bool
  parseError :: string
  parseWarnings :: "warning list"

text \<open>
  Modelled from the spec: the wire messages are declared in the package
  \<^verbatim>\<open>gauge_messages\<close>. The records follow the spec's wire payload shapes, each field
  holding what its getter returns (\<^verbatim>\<open>GetIsStepPresent\<close>, \<^verbatim>\<open>GetHasAlias\<close>,
  \<^verbatim>\<open>GetStepName\<close>, \<^verbatim>\<open>GetSuccess\<close>, \<^verbatim>\<open>GetError\<close>, \<^verbatim>\<open>GetFilesChanged\<close>).
\<close>

record stepNameResponse =
  IsStepPresent :: bool
  HasAlias :: bool
  StepName :: "string list"

record refactorResponse =
  Success :: bool
  Error :: string
  FilesChanged :: "string list"

text \<open>
  Modelled from the spec: the struct \<^verbatim>\<open>stepValue\<close> and the wire type \<^verbatim>\<open>ProtoStepValue\<close>
  are declared elsewhere. By the spec's Step Value they hold the canonical text with
  positional placeholders and the argument values; \<open>sv_args\<close> is the Go field \<^verbatim>\<open>args\<close>.
\<close>

record stepValue =
  sv_args :: "string list"
  sv_stepValue :: string
  sv_parameterizedStepValue :: string

record protoStepValue =
  ProtoStepValue :: string
  ParameterizedStepValue :: string
  Parameters :: "string list"

text \<open>
  Modelled from the spec: \<^verbatim>\<open>ParameterPosition\<close> and \<^verbatim>\<open>RefactorRequest\<close> are declared in
  the package \<^verbatim>\<open>gauge_messages\<close>; the spec's wire payload gives a request two step values
  and a sequence of pairs of new and old position. The positions are 32-bit fields:
  \<^verbatim>\<open>proto.Int\<close> converts a Go \<^verbatim>\<open>int\<close> to \<^verbatim>\<open>int32\<close>, keeping the low 32 bits, and
  \<open>sint\<close> reads the field.
\<close>

record parameterPosition =
  NewPosition :: "32 word"
  OldPosition :: "32 word"

definition proto_Int :: "int \<Rightarrow> 32 word" where
  "proto_Int v = word_of_int v"

record refactorRequest =
  OldStepValue :: protoStepValue
  NewStepValue :: protoStepValue
  ParamPositions :: "parameterPosition list"

subsection \<open>Documents\<close>

text \<open>
  Modelled from the spec: the types \<^verbatim>\<open>specification\<close>, \<^verbatim>\<open>concept\<close>,
  \<^verbatim>\<open>conceptDictionary\<close> and \<^verbatim>\<open>item\<close> are declared outside \<^verbatim>\<open>refactor.go\<close>. The spec
  (Data Model, Document Rewriter, Design Notes) describes a specification document as a
  tree of step occurrences, a concept document as a sequence of items of the kinds Step,
  Comment, Table, of which only the Step kind takes part in renaming. A specification
  (\<open>specificationDoc\<close>) is its file name with its step occurrences in visiting order.
\<close>

record 'arg specificationDoc =
  fileName :: string
  occurrences :: "'arg step list"

text \<open>
  Modelled from the spec: the items of a concept, of the kinds the spec's Design Notes
  name, and \<^verbatim>\<open>item.kind()\<close>.
\<close>

datatype 'arg item = StepItem "'arg step" | CommentItem string | TableItem "string list"

datatype itemKind = stepKind | commentKind | tableKind

fun kind :: "'arg item \<Rightarrow> itemKind" where
  "kind (StepItem st) = stepKind"
| "kind (CommentItem c) = commentKind"
| "kind (TableItem t) = tableKind"

text \<open>
  Modelled from the spec: a concept and the concept dictionary. \<open>conceptStepItems\<close> is
  the Go expression \<^verbatim>\<open>concept.conceptStep.items\<close> and \<open>conceptFileName\<close> the Go field
  \<^verbatim>\<open>concept.fileName\<close>. The map \<^verbatim>\<open>conceptsMap\<close> is the list of its entries in the order
  in which the \<^verbatim>\<open>range\<close> statement of this run visits them.
\<close>

record 'arg concept =
  conceptFileName :: string
  conceptStepItems :: "'arg item list"

record 'arg conceptDictionary =
  conceptsMap :: "(string \<times> 'arg concept) list"

subsection \<open>Calls that leave the file\<close>

text \<open>
  Every call to a collaborator that reads or writes something outside the values at
  hand is recorded, in call order: parsing, discovery, in-memory rewriting of a document
  (\<open>EvRenameSteps\<close> and \<open>EvRename\<close> carry the document's file name), file writes
  (\<open>EvSaveFile\<close> carries the file name and the text written) and the runner.
\<close>

datatype event =
    EvGenerateTokens string
  | EvCreateStepUsingLookup
  | EvGetProjectRoot
  | EvFindSpecs string
  | EvCreateConceptsDictionary
  | EvRenameSteps string
  | EvRename string
  | EvSaveFile string string
  | EvLoadGaugeEnvironment
  | EvStartAPIService int
  | EvStartRunnerAndMakeConnection
  | EvStepNameRequest string
  | EvRefactorRequest refactorRequest
  | EvKill

fun isParsingOrDiscovery :: "event \<Rightarrow> bool" where
  "isParsingOrDiscovery (EvGenerateTokens t) = True"
| "isParsingOrDiscovery EvCreateStepUsingLookup = True"
| "isParsingOrDiscovery EvGetProjectRoot = True"
| "isParsingOrDiscovery (EvFindSpecs r) = True"
| "isParsingOrDiscovery EvCreateConceptsDictionary = True"
| "isParsingOrDiscovery e = False"

fun isDocumentMutation :: "event \<Rightarrow> bool" where
  "isDocumentMutation (EvRenameSteps f) = True"
| "isDocumentMutation (EvRename f) = True"
| "isDocumentMutation e = False"

fun isFileWrite :: "event \<Rightarrow> bool" where
  "isFileWrite (EvSaveFile f t) = True"
| "isFileWrite e = False"

fun isRunnerContact :: "event \<Rightarrow> bool" where
  "isRunnerContact EvLoadGaugeEnvironment = True"
| "isRunnerContact (EvStartAPIService p) = True"
| "isRunnerContact EvStartRunnerAndMakeConnection = True"
| "isRunnerContact (EvStepNameRequest v) = True"
| "isRunnerContact (EvRefactorRequest r) = True"
| "isRunnerContact EvKill = True"
| "isRunnerContact e = False"

text \<open>
  The collaborators of one run. \<open>startRunnerAndMakeConnection\<close> is the error of the
  connection attempt, if any; \<open>stepNameReply\<close> and \<open>refactorReply\<close> are what
  \<^verbatim>\<open>getResponseForMessageWithTimeout\<close> yields for the two requests (\<open>Inl\<close> the error);
  \<open>formatConcepts\<close> yields its map as the list of entries in the order the \<^verbatim>\<open>range\<close>
  statement visits them, and \<open>rangeOrder\<close> is the order in which the \<^verbatim>\<open>range\<close>
  statement of \<^verbatim>\<open>createParameterPositions\<close> visits the keys of its map.
\<close>

record ('arg, 'tok) env =
  String :: "'arg \<Rightarrow> string"
  generateTokens :: "string \<Rightarrow> string + 'tok list"
  createStepUsingLookup :: "'tok \<Rightarrow> string + 'arg step"
  GetProjectRoot :: "string + string"
  findSpecs :: "string \<Rightarrow> 'arg specificationDoc list \<times> parseResult list"
  createConceptsDictionary :: "'arg conceptDictionary \<times> parseResult"
  formatSpecification :: "'arg specificationDoc \<Rightarrow> string"
  formatConcepts :: "'arg conceptDictionary \<Rightarrow> (string \<times> string) list"
  startRunnerAndMakeConnection :: "string option"
  stepNameReply :: "string \<Rightarrow> string + stepNameResponse"
  refactorReply :: "refactorRequest \<Rightarrow> string + refactorResponse"
  extractStepValueAndParams :: "string \<Rightarrow> bool \<Rightarrow> string + stepValue"
  populateFragments :: "'arg step \<Rightarrow> fragment list"
  convertToStepText :: "fragment list \<Rightarrow> string"
  convertToProtoStepValue :: "stepValue \<Rightarrow> protoStepValue"
  rangeOrder :: "(int \<rightharpoonup> int) \<Rightarrow> int list"

subsection \<open>The document rewriter\<close>

text \<open>
  Modelled from the spec: the arguments of a rewritten occurrence. By the spec's Document
  Rewriter the inline arguments are moved to their new positions along the Order Map; a
  new position mapped to the sentinel takes the new step's own argument.
\<close>

definition getArgsInOrder :: "'arg step \<Rightarrow> 'arg step \<Rightarrow> (int \<rightharpoonup> int) \<Rightarrow> 'arg list" where
  "getArgsInOrder st newSt orderMap =
     map (\<lambda>i. let j = mapIndex orderMap (int i)
               in if 0 \<le> j \<and> nat j < length (args st) then args st ! nat j else args newSt ! i)
       [0 ..< length (args newSt)]"

text \<open>
  Modelled from the spec: \<^verbatim>\<open>step.rename\<close> is called by \<^verbatim>\<open>refactor.go\<close> and declared
  elsewhere. By the spec's Document Rewriter an occurrence is rewritten when its text
  equals the old step's text: it takes the new step's text and the reordered arguments,
  and renaming an occurrence that is a concept's own header sets the side flag. An
  occurrence that does not match hands back the flag it was given. \<open>rename\<close> returns
  the occurrence after the call, the boolean result, and the side flag after the call.
\<close>

definition rename ::
  "'arg step \<Rightarrow> 'arg step \<Rightarrow> 'arg step \<Rightarrow> bool \<Rightarrow> (int \<rightharpoonup> int) \<Rightarrow> bool \<Rightarrow> 'arg step \<times> bool \<times> bool" where
  "rename st oldSt newSt isRefactored orderMap isConceptFlag =
     (if val st \<noteq> val oldSt then (st, isRefactored, isConceptFlag)
      else (st\<lparr>val := val newSt, args := getArgsInOrder st newSt orderMap\<rparr>, True,
            isConceptFlag \<or> stepIsConcept st))"

text \<open>
  Modelled from the spec: \<^verbatim>\<open>specification.renameSteps\<close> is called by \<^verbatim>\<open>refactor.go\<close> and
  declared elsewhere. By the spec's Document Rewriter it visits every step occurrence of
  the document and returns whether at least one of them was changed.
\<close>

fun renameSteps_loop ::
  "'arg step \<Rightarrow> 'arg step \<Rightarrow> (int \<rightharpoonup> int) \<Rightarrow> 'arg step list \<Rightarrow> bool \<Rightarrow> 'arg step list \<times> bool" where
  "renameSteps_loop oldSt newSt orderMap [] isRefactored = ([], isRefactored)"
| "renameSteps_loop oldSt newSt orderMap (st # rest) isRefactored =
     (case rename st oldSt newSt isRefactored orderMap False of
        (st', isRefactored', c) \<Rightarrow>
          (case renameSteps_loop oldSt newSt orderMap rest isRefactored' of
             (rest', r) \<Rightarrow> (st' # rest', r)))"

text \<open>
  Modelled from the spec: \<open>renameSteps\<close> returns the result and the specification as
  the call leaves it.
\<close>

definition renameSteps ::
  "'arg specificationDoc \<Rightarrow> 'arg step \<Rightarrow> 'arg step \<Rightarrow> (int \<rightharpoonup> int) \<Rightarrow> bool \<times> 'arg specificationDoc" where
  "renameSteps spec oldSt newSt orderMap =
     (case renameSteps_loop oldSt newSt orderMap (occurrences spec) False of
        (sts, r) \<Rightarrow> (r, spec\<lparr>occurrences := sts\<rparr>))"

text \<open>
  A Go map with boolean values reads a missing key as \<^verbatim>\<open>false\<close>.
\<close>

definition mapBool :: "('k \<rightharpoonup> bool) \<Rightarrow> 'k \<Rightarrow> bool" where
  "mapBool m k = (case m k of None \<Rightarrow> False | Some b \<Rightarrow> b)"

text \<open>
  The first loop of \<^verbatim>\<open>rephraseInSpecsAndConcepts\<close>. The map \<^verbatim>\<open>specsRefactored\<close> is keyed
  by \<^verbatim>\<open>*specification\<close>; \<^verbatim>\<open>findSpecs\<close> allocates one specification per file, so the
  address of a specification is modelled by its position in \<^verbatim>\<open>specs\<close>.
\<close>

fun rephraseInSpecs_loop ::
  "'arg step \<Rightarrow> 'arg step \<Rightarrow> (int \<rightharpoonup> int) \<Rightarrow> nat \<Rightarrow> 'arg specificationDoc list \<Rightarrow> (nat \<rightharpoonup> bool)
     \<Rightarrow> 'arg specificationDoc list \<times> (nat \<rightharpoonup> bool)" where
  "rephraseInSpecs_loop oldSt newSt orderMap i [] specsRefactored = ([], specsRefactored)"
| "rephraseInSpecs_loop oldSt newSt orderMap i (spec # rest) specsRefactored =
     (case renameSteps spec oldSt newSt orderMap of
        (r, spec') \<Rightarrow>
          (case rephraseInSpecs_loop oldSt newSt orderMap (Suc i) rest (specsRefactored(i \<mapsto> r)) of
             (rest', m) \<Rightarrow> (spec' # rest', m)))"

text \<open>
  The inner loop over \<^verbatim>\<open>concept.conceptStep.items\<close>. In
  \<^verbatim>\<open>item.kind() == stepKind && item.(*step).rename(...) || isRefactored\<close> the call of
  \<^verbatim>\<open>rename\<close> is evaluated for every item of the step kind.
\<close>

fun rephraseInItems_loop ::
  "'arg step \<Rightarrow> 'arg step \<Rightarrow> (int \<rightharpoonup> int) \<Rightarrow> string \<Rightarrow> 'arg item list \<Rightarrow> (string \<rightharpoonup> bool) \<Rightarrow> bool
     \<Rightarrow> 'arg item list \<times> (string \<rightharpoonup> bool) \<times> bool" where
  "rephraseInItems_loop oldSt newSt orderMap file [] conceptFilesRefactored isConceptFlag =
     ([], conceptFilesRefactored, isConceptFlag)"
| "rephraseInItems_loop oldSt newSt orderMap file (it # rest) conceptFilesRefactored isConceptFlag =
     (let isRefactored = mapBool conceptFilesRefactored file in
      case it of
        StepItem st \<Rightarrow>
          (case rename st oldSt newSt isRefactored orderMap isConceptFlag of
             (st', r, c) \<Rightarrow>
               (case rephraseInItems_loop oldSt newSt orderMap file rest
                       (conceptFilesRefactored(file \<mapsto> (kind it = stepKind \<and> r \<or> isRefactored))) c of
                  (rest', m, c') \<Rightarrow> (StepItem st' # rest', m, c')))
      | _ \<Rightarrow>
          (case rephraseInItems_loop oldSt newSt orderMap file rest
                  (conceptFilesRefactored(file \<mapsto> (kind it = stepKind \<and> False \<or> isRefactored)))
                  isConceptFlag of
             (rest', m, c') \<Rightarrow> (it # rest', m, c')))"

text \<open>The outer loop over \<^verbatim>\<open>conceptDictionary.conceptsMap\<close>.\<close>

fun rephraseInConcepts_loop ::
  "'arg step \<Rightarrow> 'arg step \<Rightarrow> (int \<rightharpoonup> int) \<Rightarrow> (string \<times> 'arg concept) list \<Rightarrow> (string \<rightharpoonup> bool) \<Rightarrow> bool
     \<Rightarrow> (string \<times> 'arg concept) list \<times> (string \<rightharpoonup> bool) \<times> bool" where
  "rephraseInConcepts_loop oldSt newSt orderMap [] conceptFilesRefactored isConceptFlag =
     ([], conceptFilesRefactored, isConceptFlag)"
| "rephraseInConcepts_loop oldSt newSt orderMap ((key, concept) # rest) conceptFilesRefactored isConceptFlag =
     (let ok = (conceptFilesRefactored (conceptFileName concept) \<noteq> None);
          m0 = conceptFilesRefactored(conceptFileName concept \<mapsto>
                 (\<not> ok \<and> False \<or> mapBool conceptFilesRefactored (conceptFileName concept)))
      in case rephraseInItems_loop oldSt newSt orderMap (conceptFileName concept)
                (conceptStepItems concept) m0 isConceptFlag of
           (items', m1, c1) \<Rightarrow>
             (case rephraseInConcepts_loop oldSt newSt orderMap rest m1 c1 of
                (rest', m2, c2) \<Rightarrow>
                  ((key, concept\<lparr>conceptStepItems := items'\<rparr>) # rest', m2, c2)))"

text \<open>
  \<^verbatim>\<open>rephraseInSpecsAndConcepts\<close> returns the two maps; the model returns with them the
  agent, the specifications and the dictionary as the call leaves them, and the calls made.
\<close>

definition rephraseInSpecsAndConcepts ::
  "('arg, 'tok) env \<Rightarrow> 'arg rephraseRefactorer \<Rightarrow> 'arg specificationDoc list \<Rightarrow> 'arg conceptDictionary
     \<Rightarrow> 'arg rephraseRefactorer \<times> 'arg specificationDoc list \<times> 'arg conceptDictionary
         \<times> (nat \<rightharpoonup> bool) \<times> (string \<rightharpoonup> bool) \<times> event list" where
  "rephraseInSpecsAndConcepts e agent specs conceptDictionary =
     (let orderMap = createOrderOfArgs (String e) agent in
      case rephraseInSpecs_loop (oldStep agent) (newStep agent) orderMap 0 specs Map.empty of
        (specs', specsRefactored) \<Rightarrow>
          (case rephraseInConcepts_loop (oldStep agent) (newStep agent) orderMap
                  (conceptsMap conceptDictionary) Map.empty False of
             (concepts', conceptFilesRefactored, isConceptFlag) \<Rightarrow>
               (agent\<lparr>isConcept := isConceptFlag\<rparr>, specs',
                conceptDictionary\<lparr>conceptsMap := concepts'\<rparr>,
                specsRefactored, conceptFilesRefactored,
                map (\<lambda>spec. EvRenameSteps (fileName spec)) specs @
                concat (map (\<lambda>(key, concept).
                               map (\<lambda>it. EvRename (conceptFileName concept))
                                 (filter (\<lambda>it. kind it = stepKind) (conceptStepItems concept)))
                          (conceptsMap conceptDictionary)))))"

subsection \<open>Writing the changed documents\<close>

fun writeSpecs_loop ::
  "('arg, 'tok) env \<Rightarrow> nat \<Rightarrow> 'arg specificationDoc list \<Rightarrow> (nat \<rightharpoonup> bool) \<Rightarrow> string list \<times> event list" where
  "writeSpecs_loop e i [] specsRefactored = ([], [])"
| "writeSpecs_loop e i (spec # rest) specsRefactored =
     (case writeSpecs_loop e (Suc i) rest specsRefactored of
        (specFiles, evs) \<Rightarrow>
          if mapBool specsRefactored i
          then (fileName spec # specFiles,
                EvSaveFile (fileName spec) (formatSpecification e spec) # evs)
          else (specFiles, evs))"

fun writeConcepts_loop ::
  "(string \<times> string) list \<Rightarrow> (string \<rightharpoonup> bool) \<Rightarrow> string list \<times> event list" where
  "writeConcepts_loop [] conceptFilesRefactored = ([], [])"
| "writeConcepts_loop ((file, concept) # rest) conceptFilesRefactored =
     (case writeConcepts_loop rest conceptFilesRefactored of
        (conceptFiles, evs) \<Rightarrow>
          if mapBool conceptFilesRefactored file
          then (file # conceptFiles, EvSaveFile file concept # evs)
          else (conceptFiles, evs))"

definition writeToConceptAndSpecFiles ::
  "('arg, 'tok) env \<Rightarrow> 'arg specificationDoc list \<Rightarrow> 'arg conceptDictionary \<Rightarrow> (nat \<rightharpoonup> bool)
     \<Rightarrow> (string \<rightharpoonup> bool) \<Rightarrow> string list \<times> string list \<times> event list" where
  "writeToConceptAndSpecFiles e specs conceptDictionary specsRefactored conceptFilesRefactored =
     (case writeSpecs_loop e 0 specs specsRefactored of
        (specFiles, evs1) \<Rightarrow>
          (case writeConcepts_loop (formatConcepts e conceptDictionary) conceptFilesRefactored of
             (conceptFiles, evs2) \<Rightarrow> (specFiles, conceptFiles, evs1 @ evs2)))"

subsection \<open>The runner\<close>

definition startRunner :: "('arg, 'tok) env \<Rightarrow> string option \<times> event list" where
  "startRunner e =
     (case startRunnerAndMakeConnection e of
        Some err \<Rightarrow> (Some (''Failed to connect to test runner: '' @ err),
                     [EvLoadGaugeEnvironment, EvStartAPIService 0, EvStartRunnerAndMakeConnection])
      | None \<Rightarrow> (None, [EvLoadGaugeEnvironment, EvStartAPIService 0, EvStartRunnerAndMakeConnection]))"

text \<open>\<^verbatim>\<open>strings.Join\<close>.\<close>

fun Join :: "string list \<Rightarrow> string \<Rightarrow> string" where
  "Join [] sep = []"
| "Join [a] sep = a"
| "Join (a # b # rest) sep = a @ sep @ Join (b # rest) sep"

text \<open>
  \<^verbatim>\<open>getStepNameFromRunner\<close> returns \<open>Inl\<close> the error or \<open>Inr\<close> the step name. Reading
  element 0 of an empty slice panics. \<open>CHR 0x27\<close> is the single quote.
\<close>

definition getStepNameFromRunner ::
  "('arg, 'tok) env \<Rightarrow> 'arg rephraseRefactorer \<Rightarrow> (string + string) outcome \<times> event list" where
  "getStepNameFromRunner e agent =
     (case stepNameReply e (val (oldStep agent)) of
        Inl err \<Rightarrow> (Returns (Inl err), [EvStepNameRequest (val (oldStep agent))])
      | Inr response \<Rightarrow>
          (if \<not> IsStepPresent response
           then Returns (Inl (''Step implementation not found: '' @ lineText (oldStep agent)))
           else if HasAlias response
           then Returns (Inl (''steps with aliases : '' @ [CHR 0x27]
                              @ Join (StepName response) ([CHR 0x27] @ '', '' @ [CHR 0x27])
                              @ [CHR 0x27] @ '' cannot be refactored.''))
           else (case StepName response of
                   [] \<Rightarrow> Panics IndexOutOfRange
                 | name # others \<Rightarrow> Returns (Inr name)),
           [EvStepNameRequest (val (oldStep agent))]))"

text \<open>
  The loop of \<^verbatim>\<open>createParameterPositions\<close> over the map, its keys visited in the order
  \<open>ks\<close>; a key that the map does not hold is not visited.
\<close>

fun createParameterPositions_loop ::
  "int list \<Rightarrow> (int \<rightharpoonup> int) \<Rightarrow> parameterPosition list \<Rightarrow> parameterPosition list" where
  "createParameterPositions_loop [] orderMap paramPositions = paramPositions"
| "createParameterPositions_loop (k # ks) orderMap paramPositions =
     (case orderMap k of
        None \<Rightarrow> createParameterPositions_loop ks orderMap paramPositions
      | Some v \<Rightarrow> createParameterPositions_loop ks orderMap
                    (paramPositions @ [\<lparr>NewPosition = proto_Int k, OldPosition = proto_Int v\<rparr>]))"

definition createParameterPositions ::
  "('arg, 'tok) env \<Rightarrow> (int \<rightharpoonup> int) \<Rightarrow> parameterPosition list" where
  "createParameterPositions e orderMap =
     createParameterPositions_loop (rangeOrder e orderMap) orderMap []"

definition getStepValueFor :: "('arg, 'tok) env \<Rightarrow> 'arg step \<Rightarrow> string \<Rightarrow> string + stepValue" where
  "getStepValueFor e st stepName = extractStepValueAndParams e stepName False"

text \<open>
  The loop of \<^verbatim>\<open>generateNewStepName\<close> over the fragments. \<^verbatim>\<open>args[orderMap[paramIndex]]\<close>
  panics when the index is not within \<^verbatim>\<open>args\<close>.
\<close>

fun generateNewStepName_loop ::
  "string list \<Rightarrow> (int \<rightharpoonup> int) \<Rightarrow> int \<Rightarrow> fragment list \<Rightarrow> fragment list outcome" where
  "generateNewStepName_loop argList orderMap paramIndex [] = Returns []"
| "generateNewStepName_loop argList orderMap paramIndex (fragment # rest) =
     (if GetFragmentType fragment = Fragment_Parameter
      then (if mapIndex orderMap paramIndex \<noteq> - 1
            then (if 0 \<le> mapIndex orderMap paramIndex
                     \<and> mapIndex orderMap paramIndex < int (length argList)
                  then (case generateNewStepName_loop argList orderMap (paramIndex + 1) rest of
                          Panics p \<Rightarrow> Panics p
                        | Returns rest' \<Rightarrow>
                            Returns ((case fragment of
                                        ParameterFragment p \<Rightarrow>
                                          ParameterFragment
                                            (p\<lparr>Value := argList ! nat (mapIndex orderMap paramIndex)\<rparr>)
                                      | TextFragment t \<Rightarrow> fragment) # rest'))
                  else Panics IndexOutOfRange)
            else (case generateNewStepName_loop argList orderMap (paramIndex + 1) rest of
                    Panics p \<Rightarrow> Panics p
                  | Returns rest' \<Rightarrow> Returns (fragment # rest')))
      else (case generateNewStepName_loop argList orderMap paramIndex rest of
              Panics p \<Rightarrow> Panics p
            | Returns rest' \<Rightarrow> Returns (fragment # rest')))"

text \<open>
  The value of the loop variable \<^verbatim>\<open>paramIndex\<close> when the loop, started at 0, reaches
  the fragment at position \<open>n\<close>: the number of parameter fragments before it.
\<close>

definition paramIndexAt :: "fragment list \<Rightarrow> nat \<Rightarrow> int" where
  "paramIndexAt fs n =
     int (length (filter (\<lambda>f. GetFragmentType f = Fragment_Parameter) (take n fs)))"

text \<open>
  \<^verbatim>\<open>generateNewStepName\<close> returns the step text; the model returns with it the agent,
  whose new step now holds the fragments.
\<close>

definition generateNewStepName ::
  "('arg, 'tok) env \<Rightarrow> 'arg rephraseRefactorer \<Rightarrow> string list \<Rightarrow> (int \<rightharpoonup> int)
     \<Rightarrow> (string \<times> 'arg rephraseRefactorer) outcome" where
  "generateNewStepName e agent argList orderMap =
     (case generateNewStepName_loop argList orderMap 0 (populateFragments e (newStep agent)) of
        Panics p \<Rightarrow> Panics p
      | Returns fs \<Rightarrow>
          Returns (convertToStepText e fs, agent\<lparr>newStep := (newStep agent)\<lparr>fragments := fs\<rparr>\<rparr>))"

definition createRefactorRequest ::
  "('arg, 'tok) env \<Rightarrow> 'arg rephraseRefactorer \<Rightarrow> string \<Rightarrow> (string + refactorRequest) outcome" where
  "createRefactorRequest e agent stepName =
     (case getStepValueFor e (oldStep agent) stepName of
        Inl err \<Rightarrow> Returns (Inl err)
      | Inr oldStepValue \<Rightarrow>
          (let orderMap = createOrderOfArgs (String e) agent in
           case generateNewStepName e agent (sv_args oldStepValue) orderMap of
             Panics p \<Rightarrow> Panics p
           | Returns (newStepName, agent') \<Rightarrow>
               (case extractStepValueAndParams e newStepName False of
                  Inl err \<Rightarrow> Returns (Inl err)
                | Inr newStepValue \<Rightarrow>
                    Returns (Inr \<lparr>OldStepValue = convertToProtoStepValue e oldStepValue,
                                  NewStepValue = convertToProtoStepValue e newStepValue,
                                  ParamPositions = createParameterPositions e orderMap\<rparr>))))"

definition sendRefactorRequest :: "('arg, 'tok) env \<Rightarrow> refactorRequest \<Rightarrow> refactorResponse" where
  "sendRefactorRequest e refactorRequest =
     (case refactorReply e refactorRequest of
        Inl err \<Rightarrow> \<lparr>Success = False, Error = err, FilesChanged = []\<rparr>
      | Inr response \<Rightarrow> response)"

text \<open>
  \<^verbatim>\<open>requestRunnerForRefactoring\<close> returns the files changed and the error, if any.
\<close>

definition requestRunnerForRefactoring ::
  "('arg, 'tok) env \<Rightarrow> 'arg rephraseRefactorer \<Rightarrow> string
     \<Rightarrow> (string list \<times> string option) outcome \<times> event list" where
  "requestRunnerForRefactoring e agent stepName =
     (case createRefactorRequest e agent stepName of
        Panics p \<Rightarrow> (Panics p, [])
      | Returns (Inl err) \<Rightarrow> (Returns ([], Some err), [])
      | Returns (Inr refactorRequest) \<Rightarrow>
          (let refactorResponse = sendRefactorRequest e refactorRequest
           in (Returns (FilesChanged refactorResponse,
                        if \<not> Success refactorResponse then Some (Error refactorResponse) else None),
               [EvRefactorRequest refactorRequest])))"

subsection \<open>The refactoring\<close>

text \<open>
  One call of \<^verbatim>\<open>performRefactoringOn\<close>: \<open>states\<close> lists the values the result object
  \<^verbatim>\<open>refactoringResult\<close> takes, from its creation through every assignment to one of its
  fields; the call returns the last of them unless \<open>panicked\<close> names a panic. The
  deferred \<^verbatim>\<open>runner.kill()\<close> runs on every exit once the runner is started.
\<close>

record run =
  states :: "refactoringResult list"
  panicked :: "panic option"
  events :: "event list"

definition performRefactoringOn ::
  "('arg, 'tok) env \<Rightarrow> 'arg rephraseRefactorer \<Rightarrow> 'arg specificationDoc list \<Rightarrow> 'arg conceptDictionary
     \<Rightarrow> run" where
  "performRefactoringOn e agent specs conceptDictionary =
     (case rephraseInSpecsAndConcepts e agent specs conceptDictionary of
        (agent1, specs1, dict1, specsRefactored, conceptFilesRefactored, evs1) \<Rightarrow>
     (case writeToConceptAndSpecFiles e specs1 dict1 specsRefactored conceptFilesRefactored of
        (specFiles, conceptFiles, evs2) \<Rightarrow>
     (let r0 = \<lparr>success = False, specsChanged = specFiles, conceptsChanged = conceptFiles,
                runnerFilesChanged = [], errors = [], warnings = []\<rparr>
      in case startRunner e of
           (Some connErr, evs3) \<Rightarrow>
             \<lparr>states = [r0, r0\<lparr>errors := errors r0 @ [connErr]\<rparr>], panicked = None,
              events = evs1 @ evs2 @ evs3\<rparr>
         | (None, evs3) \<Rightarrow>
            (case getStepNameFromRunner e agent1 of
               (Panics p, evs4) \<Rightarrow>
                 \<lparr>states = [r0], panicked = Some p, events = evs1 @ evs2 @ evs3 @ evs4 @ [EvKill]\<rparr>
             | (Returns (Inl err), evs4) \<Rightarrow>
                 \<lparr>states = [r0, r0\<lparr>errors := errors r0 @ [err]\<rparr>], panicked = None,
                  events = evs1 @ evs2 @ evs3 @ evs4 @ [EvKill]\<rparr>
             | (Returns (Inr stepName), evs4) \<Rightarrow>
                (case requestRunnerForRefactoring e agent1 stepName of
                   (Panics p, evs5) \<Rightarrow>
                     \<lparr>states = [r0], panicked = Some p,
                      events = evs1 @ evs2 @ evs3 @ evs4 @ evs5 @ [EvKill]\<rparr>
                 | (Returns (runnerFiles, Some err), evs5) \<Rightarrow>
                     \<lparr>states = [r0, r0\<lparr>errors := errors r0
                                          @ [''Only spec files and concepts refactored: '' @ err]\<rparr>],
                      panicked = None, events = evs1 @ evs2 @ evs3 @ evs4 @ evs5 @ [EvKill]\<rparr>
                 | (Returns (runnerFiles, None), evs5) \<Rightarrow>
                     \<lparr>states = [r0, r0\<lparr>success := True\<rparr>,
                                r0\<lparr>success := True, runnerFilesChanged := runnerFiles\<rparr>],
                      panicked = None, events = evs1 @ evs2 @ evs3 @ evs4 @ evs5 @ [EvKill]\<rparr>)))))"

subsection \<open>The entry point\<close>

definition rephraseFailure :: "string list \<Rightarrow> refactoringResult" where
  "rephraseFailure errs =
     \<lparr>success = False, specsChanged = [], conceptsChanged = [], runnerFilesChanged = [],
      errors = errs, warnings = []\<rparr>"

definition appendWarnings :: "refactoringResult \<Rightarrow> warning list \<Rightarrow> refactoringResult" where
  "appendWarnings refactoringResult ws =
     refactoringResult\<lparr>warnings := warnings refactoringResult @ map message ws\<rparr>"

fun addErrorsAndWarningsToRefactoringResult ::
  "refactoringResult \<Rightarrow> parseResult list \<Rightarrow> refactoringResult" where
  "addErrorsAndWarningsToRefactoringResult refactorResult [] = refactorResult"
| "addErrorsAndWarningsToRefactoringResult refactorResult (parseResult # rest) =
     addErrorsAndWarningsToRefactoringResult
       (appendWarnings
          (if \<not> ok parseResult
           then refactorResult\<lparr>success := False,
                               errors := errors refactorResult @ [parseError parseResult]\<rparr>
           else refactorResult)
          (parseWarnings parseResult))
       rest"

text \<open>The loop of \<^verbatim>\<open>getRefactorAgent\<close> over the step tokens.\<close>

fun getRefactorAgent_loop ::
  "('arg, 'tok) env \<Rightarrow> 'tok list \<Rightarrow> 'arg step list \<Rightarrow> (string + 'arg step list) \<times> event list" where
  "getRefactorAgent_loop e [] steps = (Inr steps, [])"
| "getRefactorAgent_loop e (stepToken # rest) steps =
     (case createStepUsingLookup e stepToken of
        Inl err \<Rightarrow> (Inl err, [EvCreateStepUsingLookup])
      | Inr st \<Rightarrow>
          (case getRefactorAgent_loop e rest (steps @ [st]) of
             (r, evs) \<Rightarrow> (r, EvCreateStepUsingLookup # evs)))"

text \<open>\<open>CHR 0x0A\<close> is the line feed. \<^verbatim>\<open>steps[1]\<close> panics when fewer than two steps came out.\<close>

definition getRefactorAgent ::
  "('arg, 'tok) env \<Rightarrow> string \<Rightarrow> string \<Rightarrow> (string + 'arg rephraseRefactorer) outcome \<times> event list" where
  "getRefactorAgent e oldStepText newStepText =
     (let stepsText = ''* '' @ oldStepText @ [CHR 0x0A] @ ''*'' @ newStepText in
      case generateTokens e stepsText of
        Inl err \<Rightarrow> (Returns (Inl err), [EvGenerateTokens stepsText])
      | Inr stepTokens \<Rightarrow>
          (case getRefactorAgent_loop e stepTokens [] of
             (Inl err, evs) \<Rightarrow> (Returns (Inl err), EvGenerateTokens stepsText # evs)
           | (Inr steps, evs) \<Rightarrow>
               (case steps of
                  s0 # s1 # others \<Rightarrow>
                    (Returns (Inr \<lparr>oldStep = s0, newStep = s1, isConcept = False\<rparr>),
                     EvGenerateTokens stepsText # evs)
                | _ \<Rightarrow> (Panics IndexOutOfRange, EvGenerateTokens stepsText # evs))))"

definition performRephraseRefactoring ::
  "('arg, 'tok) env \<Rightarrow> string \<Rightarrow> string \<Rightarrow> refactoringResult outcome \<times> event list" where
  "performRephraseRefactoring e oldStepText newStepText =
     (if newStepText = oldStepText
      then (Returns (rephraseFailure [''Same old step name and new step name.'']), [])
      else
       (case getRefactorAgent e oldStepText newStepText of
          (Panics p, evs0) \<Rightarrow> (Panics p, evs0)
        | (Returns (Inl err), evs0) \<Rightarrow> (Returns (rephraseFailure [err]), evs0)
        | (Returns (Inr agent), evs0) \<Rightarrow>
       (case GetProjectRoot e of
          Inl err \<Rightarrow> (Returns (rephraseFailure [err]), evs0 @ [EvGetProjectRoot])
        | Inr projectRoot \<Rightarrow>
       (case findSpecs e projectRoot of
          (specs, specParseResults) \<Rightarrow>
       (let result = addErrorsAndWarningsToRefactoringResult
                       \<lparr>success = True, specsChanged = [], conceptsChanged = [],
                        runnerFilesChanged = [], errors = [], warnings = []\<rparr>
                       specParseResults
        in if \<not> success result
           then (Returns result, evs0 @ [EvGetProjectRoot, EvFindSpecs projectRoot])
           else
       (case createConceptsDictionary e of
          (conceptDictionary, parseResult) \<Rightarrow>
       (let result' = addErrorsAndWarningsToRefactoringResult result [parseResult]
        in if \<not> success result'
           then (Returns result',
                 evs0 @ [EvGetProjectRoot, EvFindSpecs projectRoot, EvCreateConceptsDictionary])
           else
       (let r = performRefactoringOn e agent specs conceptDictionary;
            evs = evs0 @ [EvGetProjectRoot, EvFindSpecs projectRoot, EvCreateConceptsDictionary]
                    @ events r
        in case panicked r of
             Some p \<Rightarrow> (Panics p, evs)
           | None \<Rightarrow>
               (Returns ((last (states r))
                           \<lparr>warnings := warnings (last (states r)) @ warnings result'\<rparr>),
                evs)))))))))"

definition allFilesChanges :: "refactoringResult \<Rightarrow> string list" where
  "allFilesChanges refactoringResult =
     specsChanged refactoringResult @ conceptsChanged refactoringResult
       @ runnerFilesChanged refactoringResult"

subsection \<open>A sample project\<close>

text \<open>
  A small project on which the model is run: the rename of \<open>transfer <from> to <to>\<close>
  to \<open>transfer <to> from <from>\<close>, two specifications of which the first uses the old
  step, and a concept file. An argument is its name, which is also its token.
\<close>

definition sampleOldStep :: "string step" where
  "sampleOldStep = \<lparr>lineText = ''transfer <from> to <to>'', val = ''transfer {} to {}'',
                     args = [''from'', ''to''], fragments = [], stepIsConcept = False\<rparr>"

definition sampleNewStep :: "string step" where
  "sampleNewStep = \<lparr>lineText = ''transfer <to> from <from>'', val = ''transfer {} from {}'',
                     args = [''to'', ''from''], fragments = [], stepIsConcept = False\<rparr>"

definition sampleAgent :: "string rephraseRefactorer" where
  "sampleAgent = \<lparr>oldStep = sampleOldStep, newStep = sampleNewStep, isConcept = False\<rparr>"

definition sampleTieAgent :: "string rephraseRefactorer" where
  "sampleTieAgent =
     \<lparr>oldStep = \<lparr>lineText = ''move <y> <x> <x>'', val = ''move {} {} {}'',
                 args = [''y'', ''x'', ''x''], fragments = [], stepIsConcept = False\<rparr>,
      newStep = \<lparr>lineText = ''move <x> by <z>'', val = ''move {} by {}'',
                 args = [''x'', ''z''], fragments = [], stepIsConcept = False\<rparr>,
      isConcept = False\<rparr>"

definition sampleOtherStep :: "string step" where
  "sampleOtherStep = \<lparr>lineText = ''open account <id>'', val = ''open account {}'',
                       args = [''id''], fragments = [], stepIsConcept = False\<rparr>"

definition sampleSpecs :: "string specificationDoc list" where
  "sampleSpecs = [\<lparr>fileName = ''transfer.spec'', occurrences = [sampleOtherStep, sampleOldStep]\<rparr>,
                  \<lparr>fileName = ''account.spec'', occurrences = [sampleOtherStep]\<rparr>]"

definition sampleDictionary :: "string conceptDictionary" where
  "sampleDictionary =
     \<lparr>conceptsMap = [(''pay {}'', \<lparr>conceptFileName = ''pay.cpt'',
                                    conceptStepItems = [CommentItem ''pays'', StepItem sampleOldStep]\<rparr>),
                     (''greet'', \<lparr>conceptFileName = ''greet.cpt'',
                                  conceptStepItems = [StepItem sampleOtherStep]\<rparr>)]\<rparr>"

fun sampleStepText :: "fragment list \<Rightarrow> string" where
  "sampleStepText [] = []"
| "sampleStepText (TextFragment t # rest) = t @ sampleStepText rest"
| "sampleStepText (ParameterFragment p # rest) = ''<'' @ Value p @ ''>'' @ sampleStepText rest"

definition sampleEnv :: "(string, string step) env" where
  "sampleEnv =
     \<lparr>String = (\<lambda>a. a),
      generateTokens = (\<lambda>t. Inr [sampleOldStep, sampleNewStep]),
      createStepUsingLookup = Inr,
      GetProjectRoot = Inr ''/project'',
      findSpecs = (\<lambda>root. (sampleSpecs,
                     [\<lparr>ok = True, parseError = [], parseWarnings = [\<lparr>message = ''unused table''\<rparr>]\<rparr>,
                      \<lparr>ok = True, parseError = [], parseWarnings = []\<rparr>])),
      createConceptsDictionary =
        (sampleDictionary, \<lparr>ok = True, parseError = [], parseWarnings = []\<rparr>),
      formatSpecification = (\<lambda>spec. concat (map val (occurrences spec))),
      formatConcepts = (\<lambda>d. map (\<lambda>(key, c). (conceptFileName c, key)) (conceptsMap d)),
      startRunnerAndMakeConnection = None,
      stepNameReply = (\<lambda>v. Inr \<lparr>IsStepPresent = True, HasAlias = False,
                                 StepName = [''transfer {} to {}'']\<rparr>),
      refactorReply = (\<lambda>r. Inr \<lparr>Success = True, Error = [], FilesChanged = [''Steps.java'']\<rparr>),
      extractStepValueAndParams =
        (\<lambda>t c. Inr \<lparr>sv_args = [''a'', ''b''], sv_stepValue = t, sv_parameterizedStepValue = t\<rparr>),
      populateFragments =
        (\<lambda>st. [TextFragment ''transfer '', ParameterFragment \<lparr>ParameterType = Dynamic, Value = ''to''\<rparr>,
               TextFragment '' from '', ParameterFragment \<lparr>ParameterType = Dynamic, Value = ''from''\<rparr>]),
      convertToStepText = sampleStepText,
      convertToProtoStepValue =
        (\<lambda>v. \<lparr>ProtoStepValue = sv_stepValue v,
              ParameterizedStepValue = sv_parameterizedStepValue v, Parameters = sv_args v\<rparr>),
      rangeOrder = (\<lambda>m. filter (\<lambda>k. m k \<noteq> None) [1, 0, 3, 2])\<rparr>"

text \<open>
  The same project with a runner that answers the step-name request differently: the
  step absent though aliases are reported, the step aliased, and no name at all.
\<close>

definition sampleEnvAbsentAlias :: "(string, string step) env" where
  "sampleEnvAbsentAlias =
     sampleEnv\<lparr>stepNameReply := (\<lambda>v. Inr \<lparr>IsStepPresent = False, HasAlias = True,
                                            StepName = [''stepA'', ''stepB'']\<rparr>)\<rparr>"

definition sampleEnvAliased :: "(string, string step) env" where
  "sampleEnvAliased =
     sampleEnv\<lparr>stepNameReply := (\<lambda>v. Inr \<lparr>IsStepPresent = True, HasAlias = True,
                                            StepName = [''stepA'', ''stepB'']\<rparr>)\<rparr>"

definition sampleEnvNoName :: "(string, string step) env" where
  "sampleEnvNoName =
     sampleEnv\<lparr>stepNameReply := (\<lambda>v. Inr \<lparr>IsStepPresent = True, HasAlias = False,
                                            StepName = []\<rparr>)\<rparr>"

text \<open>
  The same project with a runner that refuses the refactoring, and with a first
  specification that does not parse.
\<close>

definition sampleEnvRefused :: "(string, string step) env" where
  "sampleEnvRefused =
     sampleEnv\<lparr>refactorReply := (\<lambda>r. Inr \<lparr>Success = False, Error = ''cannot rename'',
                                            FilesChanged = []\<rparr>)\<rparr>"

definition sampleEnvBadSpec :: "(string, string step) env" where
  "sampleEnvBadSpec =
     sampleEnv\<lparr>findSpecs := (\<lambda>root. (sampleSpecs,
                   [\<lparr>ok = False, parseError = ''line no: 3, Step is not defined'',
                     parseWarnings = [\<lparr>message = ''unused table''\<rparr>]\<rparr>,
                    \<lparr>ok = True, parseError = [], parseWarnings = []\<rparr>]))\<rparr>"

section \<open>Properties\<close>

subsection \<open>SliceIndex finds the first index\<close>

lemma SliceIndex_from_none:
  "(\<forall>j. i \<le> j \<and> j < limit \<longrightarrow> \<not> predicate j) \<Longrightarrow> SliceIndex_from i limit predicate = - 1"
proof (induction i limit predicate rule: SliceIndex_from.induct)
  case (1 i limit predicate)
  show ?case
  proof (cases "i < limit")
    case True
    with "1.prems" have np: "\<not> predicate i" by simp
    from "1.prems" have "\<forall>j. i + 1 \<le> j \<and> j < limit \<longrightarrow> \<not> predicate j" by simp
    with "1.IH" True np have "SliceIndex_from (i + 1) limit predicate = - 1" by blast
    with True np show ?thesis by simp
  next
    case False
    then show ?thesis by simp
  qed
qed

lemma SliceIndex_from_first:
  "i \<le> k \<Longrightarrow> k < limit \<Longrightarrow> predicate k \<Longrightarrow> (\<forall>j. i \<le> j \<and> j < k \<longrightarrow> \<not> predicate j)
   \<Longrightarrow> SliceIndex_from i limit predicate = k"
proof (induction i limit predicate rule: SliceIndex_from.induct)
  case (1 i limit predicate)
  from "1.prems" have il: "i < limit" by simp
  show ?case
  proof (cases "predicate i")
    case True
    with "1.prems" have "i = k" by force
    with il True show ?thesis by simp
  next
    case False
    with "1.prems" have "i \<noteq> k" by auto
    with "1.prems" have ik: "i + 1 \<le> k" by simp
    from "1.prems" have "\<forall>j. i + 1 \<le> j \<and> j < k \<longrightarrow> \<not> predicate j" by simp
    with "1.IH" [OF il False ik] "1.prems" have "SliceIndex_from (i + 1) limit predicate = k"
      by blast
    with il False show ?thesis by simp
  qed
qed

lemma SliceIndex_none:
  "(\<forall>j. 0 \<le> j \<and> j < limit \<longrightarrow> \<not> predicate j) \<Longrightarrow> SliceIndex limit predicate = - 1"
  unfolding SliceIndex_def by (rule SliceIndex_from_none)

lemma SliceIndex_first:
  "0 \<le> k \<Longrightarrow> k < limit \<Longrightarrow> predicate k \<Longrightarrow> (\<forall>j. 0 \<le> j \<and> j < k \<longrightarrow> \<not> predicate j)
   \<Longrightarrow> SliceIndex limit predicate = k"
  unfolding SliceIndex_def by (rule SliceIndex_from_first)

subsection \<open>The Order Map\<close>

lemma createOrderOfArgs_loop_lookup:
  "createOrderOfArgs_loop S oldArgs i newArgs orderMap k =
     (if i \<le> k \<and> k < i + int (length newArgs)
      then Some (SliceIndex (int (length oldArgs))
                   (\<lambda>j. S (oldArgs ! nat j) = S (newArgs ! nat (k - i))))
      else orderMap k)"
proof (induction newArgs arbitrary: i orderMap k)
  case Nil
  show ?case by auto
next
  case (Cons arg rest)
  show ?case
  proof (cases "k = i")
    case True
    then show ?thesis by (simp add: Cons.IH)
  next
    case False
    have "nat (k - i) = Suc (nat (k - (i + 1)))" if "i + 1 \<le> k"
      using that by simp
    then show ?thesis using False by (auto simp: Cons.IH)
  qed
qed

lemma createOrderOfArgs_lookup:
  "createOrderOfArgs S agent k =
     (if 0 \<le> k \<and> k < int (length (args (newStep agent)))
      then Some (SliceIndex (int (length (args (oldStep agent))))
                   (\<lambda>j. S (args (oldStep agent) ! nat j) = S (args (newStep agent) ! nat k)))
      else None)"
  by (simp add: createOrderOfArgs_def createOrderOfArgs_loop_lookup)

lemma dom_createOrderOfArgs:
  "dom (createOrderOfArgs S agent) = {k. 0 \<le> k \<and> k < int (length (args (newStep agent)))}"
  by (auto simp: dom_def createOrderOfArgs_lookup)

lemma SliceIndex_cases:
  fixes n :: nat
  shows "(SliceIndex (int n) (\<lambda>j. P (nat j)) = - 1 \<and> (\<forall>j<n. \<not> P j)) \<or>
         (0 \<le> SliceIndex (int n) (\<lambda>j. P (nat j)) \<and> nat (SliceIndex (int n) (\<lambda>j. P (nat j))) < n \<and>
          P (nat (SliceIndex (int n) (\<lambda>j. P (nat j)))) \<and>
          (\<forall>j < nat (SliceIndex (int n) (\<lambda>j. P (nat j))). \<not> P j))"
proof (cases "\<exists>j<n. P j")
  case False
  then have "\<forall>j. 0 \<le> j \<and> j < int n \<longrightarrow> \<not> P (nat j)" by auto
  then have "SliceIndex (int n) (\<lambda>j. P (nat j)) = - 1" by (rule SliceIndex_none)
  with False show ?thesis by simp
next
  case True
  define m where "m = (LEAST j. j < n \<and> P j)"
  from True have m: "m < n \<and> P m" unfolding m_def by (metis (mono_tags, lifting) LeastI_ex)
  have least: "\<not> P j" if "j < m" for j
    using that m not_less_Least [of j "\<lambda>j. j < n \<and> P j"] unfolding m_def by auto
  have "SliceIndex (int n) (\<lambda>j. P (nat j)) = int m"
  proof (rule SliceIndex_first)
    show "\<forall>j. 0 \<le> j \<and> j < int m \<longrightarrow> \<not> P (nat j)" using least by auto
  qed (use m in auto)
  with m least show ?thesis by simp
qed

text \<open>
  Claim C1. For every pair of old and new argument lists, the map that
  \<open>createOrderOfArgs\<close> returns has exactly the indices of the new arguments as its keys,
  and its value at a new index \<open>i\<close> is either the sentinel \<open>-1\<close>, when no old argument has
  the token of the new argument \<open>i\<close>, or an index into the old arguments whose token is
  that of the new argument \<open>i\<close> and before which no old argument has it: the smallest
  such old index.
\<close>

theorem createOrderOfArgs_first_match:
  "dom (createOrderOfArgs S agent) = {k. 0 \<le> k \<and> k < int (length (args (newStep agent)))} \<and>
   (\<forall>i < length (args (newStep agent)). \<exists>v.
      createOrderOfArgs S agent (int i) = Some v \<and>
      ((v = - 1 \<and> (\<forall>j < length (args (oldStep agent)).
                     S (args (oldStep agent) ! j) \<noteq> S (args (newStep agent) ! i))) \<or>
       (0 \<le> v \<and> nat v < length (args (oldStep agent)) \<and>
        S (args (oldStep agent) ! nat v) = S (args (newStep agent) ! i) \<and>
        (\<forall>j < nat v. S (args (oldStep agent) ! j) \<noteq> S (args (newStep agent) ! i)))))"
proof (intro conjI allI impI)
  show "dom (createOrderOfArgs S agent) = {k. 0 \<le> k \<and> k < int (length (args (newStep agent)))}"
    by (rule dom_createOrderOfArgs)
next
  fix i assume i: "i < length (args (newStep agent))"
  let ?P = "\<lambda>j. S (args (oldStep agent) ! j) = S (args (newStep agent) ! i)"
  let ?v = "SliceIndex (int (length (args (oldStep agent)))) (\<lambda>j. ?P (nat j))"
  from i have "createOrderOfArgs S agent (int i) = Some ?v"
    by (simp add: createOrderOfArgs_lookup)
  moreover note SliceIndex_cases [of "length (args (oldStep agent))" ?P]
  ultimately show "\<exists>v. createOrderOfArgs S agent (int i) = Some v \<and>
      ((v = - 1 \<and> (\<forall>j < length (args (oldStep agent)).
                     S (args (oldStep agent) ! j) \<noteq> S (args (newStep agent) ! i))) \<or>
       (0 \<le> v \<and> nat v < length (args (oldStep agent)) \<and>
        S (args (oldStep agent) ! nat v) = S (args (newStep agent) ! i) \<and>
        (\<forall>j < nat v. S (args (oldStep agent) ! j) \<noteq> S (args (newStep agent) ! i))))"
    by blast
qed

theorem createOrderOfArgs_first_match_witness:
  "(0::nat) < length (args (newStep sampleTieAgent)) \<and>
   dom (createOrderOfArgs (\<lambda>a. a) sampleTieAgent) = {0, 1} \<and>
   createOrderOfArgs (\<lambda>a. a) sampleTieAgent 0 = Some 1 \<and>
   createOrderOfArgs (\<lambda>a. a) sampleTieAgent 1 = Some (- 1)"
proof -
  have "{k::int. 0 \<le> k \<and> k < 2} = {0, 1}" by auto
  with createOrderOfArgs_first_match [of "\<lambda>a. a" sampleTieAgent]
  have "dom (createOrderOfArgs (\<lambda>a. a) sampleTieAgent) = {0, 1}"
    by (simp add: sampleTieAgent_def)
  moreover have "createOrderOfArgs (\<lambda>a. a) sampleTieAgent 0 = Some 1"
    by (simp add: sampleTieAgent_def createOrderOfArgs_def SliceIndex_def)
  moreover have "createOrderOfArgs (\<lambda>a. a) sampleTieAgent 1 = Some (- 1)"
    by (simp add: sampleTieAgent_def createOrderOfArgs_def SliceIndex_def)
  ultimately show ?thesis by (simp add: sampleTieAgent_def)
qed

subsection \<open>The entry point on equal phrases\<close>

text \<open>
  Claim C7. When the old and the new phrase are equal, \<open>performRephraseRefactoring\<close>
  returns at once the failure result whose only error is
  \<open>Same old step name and new step name.\<close>, with \<open>success\<close> false and every other list
  empty, and no call has left the file: nothing was parsed, discovered, read, written or
  sent to a runner.
\<close>

theorem performRephraseRefactoring_same_name:
  "performRephraseRefactoring e phrase phrase =
     (Returns \<lparr>success = False, specsChanged = [], conceptsChanged = [], runnerFilesChanged = [],
               errors = [''Same old step name and new step name.''], warnings = []\<rparr>, [])"
  by (simp add: performRephraseRefactoring_def rephraseFailure_def)

theorem performRephraseRefactoring_same_name_witness:
  "performRephraseRefactoring sampleEnv ''transfer <from> to <to>'' ''transfer <from> to <to>'' =
     (Returns \<lparr>success = False, specsChanged = [], conceptsChanged = [], runnerFilesChanged = [],
               errors = [''Same old step name and new step name.''], warnings = []\<rparr>, [])"
  using performRephraseRefactoring_same_name [of sampleEnv "''transfer <from> to <to>''"] by simp

subsection \<open>Resolving the step name\<close>

text \<open>
  Claim C6, as amended. Given a response of the runner, \<open>getStepNameFromRunner\<close> fails
  with \<open>Step implementation not found: \<close> followed by the old step's line text exactly
  when the response reports the step absent; it fails with the aliased-steps error, whose
  message lists every returned name joined by \<open>', '\<close>, exactly when the response reports
  the step present and aliased; and when the step is present and not aliased it returns
  the first returned name, the read of element 0 panicking when no name was returned.
\<close>

theorem getStepNameFromRunner_cases:
  assumes "stepNameReply e (val (oldStep agent)) = Inr response"
  shows "(fst (getStepNameFromRunner e agent)
            = Returns (Inl (''Step implementation not found: '' @ lineText (oldStep agent))))
           = (\<not> IsStepPresent response) \<and>
         (fst (getStepNameFromRunner e agent)
            = Returns (Inl (''steps with aliases : '' @ [CHR 0x27]
                            @ Join (StepName response) ([CHR 0x27] @ '', '' @ [CHR 0x27])
                            @ [CHR 0x27] @ '' cannot be refactored.'')))
           = (IsStepPresent response \<and> HasAlias response) \<and>
         (IsStepPresent response \<and> \<not> HasAlias response \<longrightarrow>
            fst (getStepNameFromRunner e agent)
              = (case StepName response of [] \<Rightarrow> Panics IndexOutOfRange
                 | name # others \<Rightarrow> Returns (Inr name)))"
  using assms by (auto simp: getStepNameFromRunner_def split: list.splits)

theorem getStepNameFromRunner_cases_witness:
  "stepNameReply sampleEnvAliased (val (oldStep sampleAgent))
     = Inr \<lparr>IsStepPresent = True, HasAlias = True, StepName = [''stepA'', ''stepB'']\<rparr> \<and>
   fst (getStepNameFromRunner sampleEnvAliased sampleAgent)
     = Returns (Inl (''steps with aliases : '' @ [CHR 0x27] @ ''stepA'' @ [CHR 0x27] @ '', ''
                     @ [CHR 0x27] @ ''stepB'' @ [CHR 0x27] @ '' cannot be refactored.''))"
proof -
  have r: "stepNameReply sampleEnvAliased (val (oldStep sampleAgent))
     = Inr \<lparr>IsStepPresent = True, HasAlias = True, StepName = [''stepA'', ''stepB'']\<rparr>"
    by (simp add: sampleEnvAliased_def)
  from getStepNameFromRunner_cases [OF r] r show ?thesis by simp
qed

text \<open>
  The claim as written fails: a response that reports aliases for an absent step gets the
  not-found error, not the aliased-steps error.
\<close>

theorem getStepNameFromRunner_alias_counterexample:
  "stepNameReply sampleEnvAbsentAlias (val (oldStep sampleAgent))
     = Inr \<lparr>IsStepPresent = False, HasAlias = True, StepName = [''stepA'', ''stepB'']\<rparr> \<and>
   fst (getStepNameFromRunner sampleEnvAbsentAlias sampleAgent)
     = Returns (Inl ''Step implementation not found: transfer <from> to <to>'') \<and>
   fst (getStepNameFromRunner sampleEnvAbsentAlias sampleAgent)
     \<noteq> Returns (Inl (''steps with aliases : '' @ [CHR 0x27] @ ''stepA'' @ [CHR 0x27] @ '', ''
                     @ [CHR 0x27] @ ''stepB'' @ [CHR 0x27] @ '' cannot be refactored.''))"
  by (simp add: sampleEnvAbsentAlias_def getStepNameFromRunner_def sampleAgent_def sampleOldStep_def)

text \<open>
  Claim C10. \<open>getStepNameFromRunner\<close> reads element 0 of the returned names without a
  check: given a response, the call does not panic exactly when a step reported present
  and not aliased comes with at least one name.
\<close>

theorem getStepNameFromRunner_in_bounds:
  assumes "stepNameReply e (val (oldStep agent)) = Inr response"
  shows "(\<forall>p. fst (getStepNameFromRunner e agent) \<noteq> Panics p)
           = (IsStepPresent response \<and> \<not> HasAlias response \<longrightarrow> StepName response \<noteq> [])"
  using assms by (auto simp: getStepNameFromRunner_def split: list.splits)

theorem getStepNameFromRunner_in_bounds_witness:
  "stepNameReply sampleEnvNoName (val (oldStep sampleAgent))
     = Inr \<lparr>IsStepPresent = True, HasAlias = False, StepName = []\<rparr> \<and>
   fst (getStepNameFromRunner sampleEnvNoName sampleAgent) = Panics IndexOutOfRange \<and>
   stepNameReply sampleEnv (val (oldStep sampleAgent))
     = Inr \<lparr>IsStepPresent = True, HasAlias = False, StepName = [''transfer {} to {}'']\<rparr> \<and>
   (\<forall>p. fst (getStepNameFromRunner sampleEnv sampleAgent) \<noteq> Panics p)"
proof -
  have r0: "stepNameReply sampleEnvNoName (val (oldStep sampleAgent))
     = Inr \<lparr>IsStepPresent = True, HasAlias = False, StepName = []\<rparr>"
    by (simp add: sampleEnvNoName_def)
  have r1: "stepNameReply sampleEnv (val (oldStep sampleAgent))
     = Inr \<lparr>IsStepPresent = True, HasAlias = False, StepName = [''transfer {} to {}'']\<rparr>"
    by (simp add: sampleEnv_def)
  from getStepNameFromRunner_in_bounds [OF r0]
  obtain p where "fst (getStepNameFromRunner sampleEnvNoName sampleAgent) = Panics p" by auto
  then have "fst (getStepNameFromRunner sampleEnvNoName sampleAgent) = Panics IndexOutOfRange"
    by (cases p) simp
  moreover from getStepNameFromRunner_in_bounds [OF r1]
  have "\<forall>p. fst (getStepNameFromRunner sampleEnv sampleAgent) \<noteq> Panics p" by simp
  ultimately show ?thesis using r0 r1 by simp
qed

subsection \<open>The parameter positions of the request\<close>

lemma createParameterPositions_loop_eq:
  "createParameterPositions_loop ks orderMap paramPositions =
     paramPositions @ map (\<lambda>k. \<lparr>NewPosition = proto_Int k, OldPosition = proto_Int (mapIndex orderMap k)\<rparr>)
                        (filter (\<lambda>k. orderMap k \<noteq> None) ks)"
  by (induction ks arbitrary: paramPositions) (auto simp: mapIndex_def)

lemma sint_proto_Int:
  "- (2 ^ 31) \<le> v \<Longrightarrow> v < 2 ^ 31 \<Longrightarrow> sint (proto_Int v) = v"
  unfolding proto_Int_def by (simp add: sint_sbintrunc' signed_take_bit_int_eq_self)

lemma SliceIndex_range:
  fixes n :: nat
  shows "- 1 \<le> SliceIndex (int n) (\<lambda>j. P (nat j)) \<and> SliceIndex (int n) (\<lambda>j. P (nat j)) < int n"
proof -
  define v where "v = SliceIndex (int n) (\<lambda>j. P (nat j))"
  from SliceIndex_cases [of n P] have "v = - 1 \<or> (0 \<le> v \<and> nat v < n)"
    unfolding v_def by blast
  then have "- 1 \<le> v \<and> v < int n" by linarith
  then show ?thesis unfolding v_def .
qed

lemma createOrderOfArgs_range:
  assumes "createOrderOfArgs S agent k = Some v"
  shows "0 \<le> k \<and> k < int (length (args (newStep agent))) \<and>
         - 1 \<le> v \<and> v < int (length (args (oldStep agent)))"
proof -
  from assms have k: "0 \<le> k \<and> k < int (length (args (newStep agent)))"
    by (simp add: createOrderOfArgs_lookup split: if_splits)
  with assms have "v = SliceIndex (int (length (args (oldStep agent))))
       (\<lambda>j. (\<lambda>j. S (args (oldStep agent) ! j) = S (args (newStep agent) ! nat k)) (nat j))"
    by (simp add: createOrderOfArgs_lookup)
  with SliceIndex_range [of "length (args (oldStep agent))"
         "\<lambda>j. S (args (oldStep agent) ! j) = S (args (newStep agent) ! nat k)"] k
  show ?thesis by simp
qed

lemma createParameterPositions_entries:
  assumes d: "distinct (rangeOrder e orderMap)"
      and s: "set (rangeOrder e orderMap) = dom orderMap"
      and b: "\<forall>k v. orderMap k = Some v \<longrightarrow> - (2 ^ 31) \<le> k \<and> k < 2 ^ 31 \<and> - (2 ^ 31) \<le> v \<and> v < 2 ^ 31"
  shows "map (\<lambda>p. (sint (NewPosition p), sint (OldPosition p))) (createParameterPositions e orderMap)
           = map (\<lambda>k. (k, mapIndex orderMap k)) (rangeOrder e orderMap)"
proof -
  from s have all: "filter (\<lambda>k. orderMap k \<noteq> None) (rangeOrder e orderMap) = rangeOrder e orderMap"
    by (auto simp: filter_id_conv)
  have "sint (proto_Int k) = k \<and> sint (proto_Int (mapIndex orderMap k)) = mapIndex orderMap k"
    if "k \<in> set (rangeOrder e orderMap)" for k
  proof -
    from that s obtain v where v: "orderMap k = Some v" by auto
    with b show ?thesis by (simp add: mapIndex_def sint_proto_Int)
  qed
  then have "map ((\<lambda>p. (sint (NewPosition p), sint (OldPosition p))) \<circ>
          (\<lambda>k. \<lparr>NewPosition = proto_Int k, OldPosition = proto_Int (mapIndex orderMap k)\<rparr>))
          (rangeOrder e orderMap)
        = map (\<lambda>k. (k, mapIndex orderMap k)) (rangeOrder e orderMap)"
    by (intro map_cong) simp_all
  then show ?thesis
    unfolding createParameterPositions_def createParameterPositions_loop_eq all by simp
qed

text \<open>
  Claim C9. The parameter positions placed in the refactor request hold one entry for
  each key of the Order Map and no other: read as pairs of new and old position, the
  entries are exactly the pairs of the map, the sentinel \<open>-1\<close> included; no new position
  occurs twice, and the new positions are the indices of the new step's arguments. The
  map's keys are visited in an order that the run chooses (any list of the keys without
  repetition), and the positions are 32-bit fields, so the arities are taken to fit them.
\<close>

theorem createRefactorRequest_paramPositions:
  assumes req: "createRefactorRequest e agent stepName = Returns (Inr request)"
      and d: "distinct (rangeOrder e (createOrderOfArgs (String e) agent))"
      and s: "set (rangeOrder e (createOrderOfArgs (String e) agent))
                = dom (createOrderOfArgs (String e) agent)"
      and n: "length (args (newStep agent)) \<le> 2 ^ 31"
      and m: "length (args (oldStep agent)) \<le> 2 ^ 31"
  shows "(\<lambda>p. (sint (NewPosition p), sint (OldPosition p))) ` set (ParamPositions request)
           = {(k, v). createOrderOfArgs (String e) agent k = Some v} \<and>
         distinct (map (\<lambda>p. sint (NewPosition p)) (ParamPositions request)) \<and>
         (\<lambda>p. sint (NewPosition p)) ` set (ParamPositions request)
           = {k. 0 \<le> k \<and> k < int (length (args (newStep agent)))} \<and>
         length (ParamPositions request) = length (args (newStep agent))"
proof -
  let ?om = "createOrderOfArgs (String e) agent"
  let ?ps = "createParameterPositions e ?om"
  from req have ps: "ParamPositions request = ?ps"
    by (auto simp: createRefactorRequest_def Let_def split: sum.splits outcome.splits prod.splits)
  have b: "\<forall>k v. ?om k = Some v \<longrightarrow> - (2 ^ 31) \<le> k \<and> k < 2 ^ 31 \<and> - (2 ^ 31) \<le> v \<and> v < 2 ^ 31"
  proof (intro allI impI)
    fix k v assume "?om k = Some v"
    from createOrderOfArgs_range [OF this] n m
    show "- (2 ^ 31) \<le> k \<and> k < 2 ^ 31 \<and> - (2 ^ 31) \<le> v \<and> v < 2 ^ 31" by auto
  qed
  note ent = createParameterPositions_entries [OF d s b]
  have pairs: "(\<lambda>p. (sint (NewPosition p), sint (OldPosition p))) ` set ?ps
                 = (\<lambda>k. (k, mapIndex ?om k)) ` dom ?om"
    using arg_cong [OF ent, of set] s by simp
  have "(\<lambda>k. (k, mapIndex ?om k)) ` dom ?om = {(k, v). ?om k = Some v}"
    by (auto simp: mapIndex_def image_iff dom_def)
  with pairs have c1: "(\<lambda>p. (sint (NewPosition p), sint (OldPosition p))) ` set ?ps
                 = {(k, v). ?om k = Some v}" by simp
  have news: "map (\<lambda>p. sint (NewPosition p)) ?ps = rangeOrder e ?om"
    using arg_cong [OF ent, of "map fst"] by (simp add: comp_def)
  from news d have c2: "distinct (map (\<lambda>p. sint (NewPosition p)) ?ps)" by simp
  from arg_cong [OF news, of set] s
  have c3: "(\<lambda>p. sint (NewPosition p)) ` set ?ps = {k. 0 \<le> k \<and> k < int (length (args (newStep agent)))}"
    by (simp add: dom_createOrderOfArgs)
  have "length ?ps = length (rangeOrder e ?om)"
    using arg_cong [OF news, of length] by simp
  also have "\<dots> = card (dom ?om)" using d s distinct_card by metis
  also have "dom ?om = int ` {0 ..< length (args (newStep agent))}"
  proof -
    have "k \<in> int ` {0 ..< length (args (newStep agent))}"
      if "0 \<le> k" "k < int (length (args (newStep agent)))" for k
    proof -
      from that have "k = int (nat k)" "nat k < length (args (newStep agent))" by simp_all
      then show ?thesis by (metis atLeastLessThan_iff imageI zero_le)
    qed
    then show ?thesis unfolding dom_createOrderOfArgs by auto
  qed
  also have "card \<dots> = length (args (newStep agent))"
    by (simp add: card_image)
  finally have c4: "length ?ps = length (args (newStep agent))" .
  from c1 c2 c3 c4 ps show ?thesis by simp
qed


lemma sampleTie_order:
  "createOrderOfArgs (String sampleEnv) sampleTieAgent = [0 \<mapsto> 1, 1 \<mapsto> - 1]"
  by (simp add: sampleEnv_def sampleTieAgent_def createOrderOfArgs_def SliceIndex_def)

theorem createRefactorRequest_paramPositions_witness:
  "createRefactorRequest sampleEnv sampleTieAgent ''move {} {} {}'' =
     Returns (Inr \<lparr>OldStepValue = \<lparr>ProtoStepValue = ''move {} {} {}'',
                                      ParameterizedStepValue = ''move {} {} {}'',
                                      Parameters = [''a'', ''b'']\<rparr>,
                    NewStepValue = \<lparr>ProtoStepValue = ''transfer <b> from <from>'',
                                      ParameterizedStepValue = ''transfer <b> from <from>'',
                                      Parameters = [''a'', ''b'']\<rparr>,
                    ParamPositions = [\<lparr>NewPosition = 1, OldPosition = - 1\<rparr>,
                                      \<lparr>NewPosition = 0, OldPosition = 1\<rparr>]\<rparr>) \<and>
   (\<lambda>p. (sint (NewPosition p), sint (OldPosition p)))
      ` {\<lparr>NewPosition = 1, OldPosition = - 1\<rparr>, \<lparr>NewPosition = 0, OldPosition = 1\<rparr>}
     = {(k, v). createOrderOfArgs (String sampleEnv) sampleTieAgent k = Some v}"
proof -
  let ?R = "\<lparr>OldStepValue = \<lparr>ProtoStepValue = ''move {} {} {}'',
                                      ParameterizedStepValue = ''move {} {} {}'',
                                      Parameters = [''a'', ''b'']\<rparr>,
                    NewStepValue = \<lparr>ProtoStepValue = ''transfer <b> from <from>'',
                                      ParameterizedStepValue = ''transfer <b> from <from>'',
                                      Parameters = [''a'', ''b'']\<rparr>,
                    ParamPositions = [\<lparr>NewPosition = 1, OldPosition = - 1\<rparr>,
                                      \<lparr>NewPosition = 0, OldPosition = 1\<rparr>]\<rparr>"
  have ro: "rangeOrder sampleEnv [0 \<mapsto> 1, 1 \<mapsto> - 1] = [1, 0]"
    by (simp add: sampleEnv_def)
  have pf: "populateFragments sampleEnv (newStep sampleTieAgent) =
        [TextFragment ''transfer '', ParameterFragment \<lparr>ParameterType = Dynamic, Value = ''to''\<rparr>,
         TextFragment '' from '', ParameterFragment \<lparr>ParameterType = Dynamic, Value = ''from''\<rparr>]"
    by (simp add: sampleEnv_def)
  have ex: "extractStepValueAndParams sampleEnv t False
              = Inr \<lparr>sv_args = [''a'', ''b''], sv_stepValue = t, sv_parameterizedStepValue = t\<rparr>" for t
    by (simp add: sampleEnv_def)
  have cs: "convertToStepText sampleEnv = sampleStepText"
    by (simp add: sampleEnv_def)
  have cp: "convertToProtoStepValue sampleEnv v = \<lparr>ProtoStepValue = sv_stepValue v,
              ParameterizedStepValue = sv_parameterizedStepValue v, Parameters = sv_args v\<rparr>" for v
    by (simp add: sampleEnv_def)
  have req: "createRefactorRequest sampleEnv sampleTieAgent ''move {} {} {}'' = Returns (Inr ?R)"
    by (simp add: createRefactorRequest_def getStepValueFor_def generateNewStepName_def
          createParameterPositions_def sampleTie_order ro pf ex cs cp mapIndex_def proto_Int_def)
  have d: "distinct (rangeOrder sampleEnv (createOrderOfArgs (String sampleEnv) sampleTieAgent))"
    by (simp add: sampleTie_order ro)
  have s: "set (rangeOrder sampleEnv (createOrderOfArgs (String sampleEnv) sampleTieAgent))
             = dom (createOrderOfArgs (String sampleEnv) sampleTieAgent)"
    by (auto simp: sampleTie_order ro)
  have n: "length (args (newStep sampleTieAgent)) \<le> 2 ^ 31"
    by (simp add: sampleTieAgent_def)
  have m: "length (args (oldStep sampleTieAgent)) \<le> 2 ^ 31"
    by (simp add: sampleTieAgent_def)
  from createRefactorRequest_paramPositions [OF req d s n m] req show ?thesis by simp
qed

subsection \<open>The text of the new step\<close>

lemma paramIndexAt_0: "paramIndexAt fs 0 = 0"
  by (simp add: paramIndexAt_def)

lemma paramIndexAt_Suc:
  "paramIndexAt (f # rest) (Suc n) =
     (if GetFragmentType f = Fragment_Parameter then 1 + paramIndexAt rest n else paramIndexAt rest n)"
  by (simp add: paramIndexAt_def)

lemma generateNewStepName_loop_Returns:
  assumes "generateNewStepName_loop argList orderMap i fs = Returns fs'"
  shows "length fs' = length fs \<and>
         (\<forall>n < length fs.
            fs' ! n =
              (case fs ! n of
                 TextFragment t \<Rightarrow> TextFragment t
               | ParameterFragment p \<Rightarrow>
                   if mapIndex orderMap (i + paramIndexAt fs n) = - 1 then ParameterFragment p
                   else ParameterFragment
                          (p\<lparr>Value := argList ! nat (mapIndex orderMap (i + paramIndexAt fs n))\<rparr>)))"
  using assms
proof (induction fs arbitrary: i fs')
  case Nil
  then show ?case by simp
next
  case (Cons f rest)
  show ?case
  proof (cases f)
    case (TextFragment t)
    with Cons.prems obtain rest' where r: "generateNewStepName_loop argList orderMap i rest = Returns rest'"
      and fs': "fs' = f # rest'"
      by (auto split: outcome.splits)
    note ih = Cons.IH [OF r]
    have "fs' ! n =
              (case (f # rest) ! n of
                 TextFragment t \<Rightarrow> TextFragment t
               | ParameterFragment p \<Rightarrow>
                   if mapIndex orderMap (i + paramIndexAt (f # rest) n) = - 1 then ParameterFragment p
                   else ParameterFragment
                          (p\<lparr>Value := argList ! nat (mapIndex orderMap (i + paramIndexAt (f # rest) n))\<rparr>))"
      if n: "n < length (f # rest)" for n
    proof (cases n)
      case 0
      then show ?thesis using TextFragment fs' by simp
    next
      case (Suc n')
      with n have "n' < length rest" by simp
      with ih have "rest' ! n' =
              (case rest ! n' of
                 TextFragment t \<Rightarrow> TextFragment t
               | ParameterFragment p \<Rightarrow>
                   if mapIndex orderMap (i + paramIndexAt rest n') = - 1 then ParameterFragment p
                   else ParameterFragment
                          (p\<lparr>Value := argList ! nat (mapIndex orderMap (i + paramIndexAt rest n'))\<rparr>))"
        by blast
      then show ?thesis using TextFragment fs' unfolding Suc by (simp add: paramIndexAt_Suc split: fragment.splits)
    qed
    moreover have "length fs' = length (f # rest)" using ih fs' by simp
    ultimately show ?thesis by blast
  next
    case (ParameterFragment q)
    with Cons.prems obtain rest' where r: "generateNewStepName_loop argList orderMap (i + 1) rest = Returns rest'"
      and fs': "fs' = (if mapIndex orderMap i \<noteq> - 1
                       then ParameterFragment (q\<lparr>Value := argList ! nat (mapIndex orderMap i)\<rparr>)
                       else f) # rest'"
      by (auto split: outcome.splits if_splits)
    note ih = Cons.IH [OF r]
    have "fs' ! n =
              (case (f # rest) ! n of
                 TextFragment t \<Rightarrow> TextFragment t
               | ParameterFragment p \<Rightarrow>
                   if mapIndex orderMap (i + paramIndexAt (f # rest) n) = - 1 then ParameterFragment p
                   else ParameterFragment
                          (p\<lparr>Value := argList ! nat (mapIndex orderMap (i + paramIndexAt (f # rest) n))\<rparr>))"
      if n: "n < length (f # rest)" for n
    proof (cases n)
      case 0
      then show ?thesis using ParameterFragment fs' by (simp add: paramIndexAt_0)
    next
      case (Suc n')
      with n have "n' < length rest" by simp
      with ih have "rest' ! n' =
              (case rest ! n' of
                 TextFragment t \<Rightarrow> TextFragment t
               | ParameterFragment p \<Rightarrow>
                   if mapIndex orderMap (i + 1 + paramIndexAt rest n') = - 1 then ParameterFragment p
                   else ParameterFragment
                          (p\<lparr>Value := argList ! nat (mapIndex orderMap (i + 1 + paramIndexAt rest n'))\<rparr>))"
        by blast
      then show ?thesis using ParameterFragment fs' unfolding Suc
        by (simp add: paramIndexAt_Suc add.assoc split: fragment.splits)
    qed
    moreover have "length fs' = length (f # rest)" using ih fs' by simp
    ultimately show ?thesis by blast
  qed
qed

lemma generateNewStepName_loop_Panics:
  "(\<exists>p. generateNewStepName_loop argList orderMap i fs = Panics p) =
     (\<exists>n < length fs. GetFragmentType (fs ! n) = Fragment_Parameter \<and>
        mapIndex orderMap (i + paramIndexAt fs n) \<noteq> - 1 \<and>
        \<not> (0 \<le> mapIndex orderMap (i + paramIndexAt fs n) \<and>
           mapIndex orderMap (i + paramIndexAt fs n) < int (length argList)))"
proof (induction fs arbitrary: i)
  case Nil
  show ?case by simp
next
  case (Cons f rest)
  let ?bad = "\<lambda>i fs n. GetFragmentType (fs ! n) = Fragment_Parameter \<and>
        mapIndex orderMap (i + paramIndexAt fs n) \<noteq> - 1 \<and>
        \<not> (0 \<le> mapIndex orderMap (i + paramIndexAt fs n) \<and>
           mapIndex orderMap (i + paramIndexAt fs n) < int (length argList))"
  have split: "(\<exists>n < length (f # rest). ?bad i (f # rest) n)
                 = (?bad i (f # rest) 0 \<or> (\<exists>n < length rest. ?bad i (f # rest) (Suc n)))"
    (is "?L = ?R")
  proof
    assume ?L
    then obtain n where n: "n < length (f # rest)" "?bad i (f # rest) n" by blast
    show ?R
    proof (cases n)
      case 0 with n show ?thesis by blast
    next
      case (Suc n') with n have "n' < length rest" "?bad i (f # rest) (Suc n')" by simp_all
      then show ?thesis by blast
    qed
  next
    assume ?R
    then show ?L
    proof
      assume "?bad i (f # rest) 0"
      moreover have "0 < length (f # rest)" by simp
      ultimately show ?L by blast
    next
      assume "\<exists>n < length rest. ?bad i (f # rest) (Suc n)"
      then obtain n where "n < length rest" "?bad i (f # rest) (Suc n)" by blast
      then have "Suc n < length (f # rest)" "?bad i (f # rest) (Suc n)" by simp_all
      then show ?L by blast
    qed
  qed
  show ?case
  proof (cases "GetFragmentType f = Fragment_Parameter")
    case False
    then have shift: "?bad i (f # rest) (Suc n) = ?bad i rest n" for n
      by (simp add: paramIndexAt_Suc)
    from False have z: "\<not> ?bad i (f # rest) 0" by simp
    from False have L: "(\<exists>p. generateNewStepName_loop argList orderMap i (f # rest) = Panics p)
            = (\<exists>p. generateNewStepName_loop argList orderMap i rest = Panics p)"
      by (simp split: outcome.splits)
    have R: "(\<exists>n < length (f # rest). ?bad i (f # rest) n) = (\<exists>n < length rest. ?bad i rest n)"
      unfolding split shift using z by blast
    show ?thesis unfolding L R by (rule Cons.IH)
  next
    case True
    then have shift: "?bad i (f # rest) (Suc n) = ?bad (i + 1) rest n" for n
      by (simp add: paramIndexAt_Suc add.assoc)
    have z: "?bad i (f # rest) 0
              = (mapIndex orderMap i \<noteq> - 1 \<and> \<not> (0 \<le> mapIndex orderMap i \<and> mapIndex orderMap i < int (length argList)))"
      using True by (simp add: paramIndexAt_0)
    from True have L: "(\<exists>p. generateNewStepName_loop argList orderMap i (f # rest) = Panics p)
            = ((mapIndex orderMap i \<noteq> - 1 \<and> \<not> (0 \<le> mapIndex orderMap i \<and> mapIndex orderMap i < int (length argList)))
               \<or> (\<exists>p. generateNewStepName_loop argList orderMap (i + 1) rest = Panics p))"
      by (simp split: outcome.splits)
    have R: "(\<exists>n < length (f # rest). ?bad i (f # rest) n)
               = ((mapIndex orderMap i \<noteq> - 1 \<and> \<not> (0 \<le> mapIndex orderMap i \<and> mapIndex orderMap i < int (length argList)))
                  \<or> (\<exists>n < length rest. ?bad (i + 1) rest n))"
      unfolding split shift z by (rule refl)
    show ?thesis unfolding L R Cons.IH [of "i + 1"] by (rule refl)
  qed
qed


text \<open>
  Claim C5. \<open>generateNewStepName\<close> writes, into the parameter fragment that is the
  \<open>i\<close>-th parameter of the new step's fragments, the argument found at the old position
  that the Order Map gives for \<open>i\<close>; a parameter fragment whose mapped position is the
  sentinel \<open>-1\<close> is left as it is, and so is every text fragment. The call returns
  exactly when every mapped position other than the sentinel lies within the arguments
  (otherwise the read of the argument panics), and the text it returns is that of the
  fragments so written. For the old arguments \<open>from, to\<close> and the new arguments
  \<open>to, from\<close> the Order Map is \<open>{0:1, 1:0}\<close>, and a new step of two parameters then
  takes the old argument at index 1 at its first parameter and the old argument at
  index 0 at its second.
\<close>

theorem generateNewStepName_substitutes:
  assumes pf: "populateFragments e (newStep agent) = fs"
  shows "((\<exists>r. generateNewStepName e agent argList orderMap = Returns r) =
            (\<forall>n < length fs. GetFragmentType (fs ! n) = Fragment_Parameter \<longrightarrow>
               mapIndex orderMap (paramIndexAt fs n) = - 1 \<or>
               (0 \<le> mapIndex orderMap (paramIndexAt fs n) \<and>
                mapIndex orderMap (paramIndexAt fs n) < int (length argList)))) \<and>
         (\<forall>name agent'. generateNewStepName e agent argList orderMap = Returns (name, agent') \<longrightarrow>
            name = convertToStepText e (fragments (newStep agent')) \<and>
            length (fragments (newStep agent')) = length fs \<and>
            (\<forall>n < length fs.
               fragments (newStep agent') ! n =
                 (case fs ! n of
                    TextFragment t \<Rightarrow> TextFragment t
                  | ParameterFragment p \<Rightarrow>
                      if mapIndex orderMap (paramIndexAt fs n) = - 1 then ParameterFragment p
                      else ParameterFragment
                             (p\<lparr>Value := argList ! nat (mapIndex orderMap (paramIndexAt fs n))\<rparr>)))) \<and>
         (args (oldStep agent) = [a, b] \<and> args (newStep agent) = [b, a] \<and> S a \<noteq> S b \<longrightarrow>
            createOrderOfArgs S agent = [0 \<mapsto> 1, 1 \<mapsto> 0]) \<and>
         (fs = [TextFragment t0, ParameterFragment p0, TextFragment t1, ParameterFragment p1] \<longrightarrow>
            generateNewStepName e agent [x0, x1] [0 \<mapsto> 1, 1 \<mapsto> 0] =
              Returns (convertToStepText e
                         [TextFragment t0, ParameterFragment (p0\<lparr>Value := x1\<rparr>),
                          TextFragment t1, ParameterFragment (p1\<lparr>Value := x0\<rparr>)],
                       agent\<lparr>newStep := (newStep agent)
                               \<lparr>fragments := [TextFragment t0, ParameterFragment (p0\<lparr>Value := x1\<rparr>),
                                              TextFragment t1, ParameterFragment (p1\<lparr>Value := x0\<rparr>)]\<rparr>\<rparr>))"
proof (intro conjI allI impI)
  have "(\<exists>r. generateNewStepName e agent argList orderMap = Returns r)
          = (\<not> (\<exists>p. generateNewStepName_loop argList orderMap 0 fs = Panics p))"
    unfolding generateNewStepName_def pf
    by (cases "generateNewStepName_loop argList orderMap 0 fs") simp_all
  also have "\<dots> = (\<forall>n < length fs. GetFragmentType (fs ! n) = Fragment_Parameter \<longrightarrow>
               mapIndex orderMap (paramIndexAt fs n) = - 1 \<or>
               (0 \<le> mapIndex orderMap (paramIndexAt fs n) \<and>
                mapIndex orderMap (paramIndexAt fs n) < int (length argList)))"
    unfolding generateNewStepName_loop_Panics by auto
  finally show "(\<exists>r. generateNewStepName e agent argList orderMap = Returns r) =
            (\<forall>n < length fs. GetFragmentType (fs ! n) = Fragment_Parameter \<longrightarrow>
               mapIndex orderMap (paramIndexAt fs n) = - 1 \<or>
               (0 \<le> mapIndex orderMap (paramIndexAt fs n) \<and>
                mapIndex orderMap (paramIndexAt fs n) < int (length argList)))" .
next
  fix name agent'
  assume r: "generateNewStepName e agent argList orderMap = Returns (name, agent')"
  then obtain fs' where l: "generateNewStepName_loop argList orderMap 0 fs = Returns fs'"
    and nm: "name = convertToStepText e fs'"
    and ag: "agent' = agent\<lparr>newStep := (newStep agent)\<lparr>fragments := fs'\<rparr>\<rparr>"
    unfolding generateNewStepName_def pf
    by (cases "generateNewStepName_loop argList orderMap 0 fs") simp_all
  from ag have f: "fragments (newStep agent') = fs'" by simp
  note lr = generateNewStepName_loop_Returns [OF l, unfolded add_0]
  show "name = convertToStepText e (fragments (newStep agent'))" using nm f by simp
  show "length (fragments (newStep agent')) = length fs" using lr f by simp
  fix n assume "n < length fs"
  with lr show "fragments (newStep agent') ! n =
                 (case fs ! n of
                    TextFragment t \<Rightarrow> TextFragment t
                  | ParameterFragment p \<Rightarrow>
                      if mapIndex orderMap (paramIndexAt fs n) = - 1 then ParameterFragment p
                      else ParameterFragment
                             (p\<lparr>Value := argList ! nat (mapIndex orderMap (paramIndexAt fs n))\<rparr>))"
    unfolding f by blast
next
  assume a: "args (oldStep agent) = [a, b] \<and> args (newStep agent) = [b, a] \<and> S a \<noteq> S b"
  then have "S b \<noteq> S a" by auto
  with a show "createOrderOfArgs S agent = [0 \<mapsto> 1, 1 \<mapsto> 0]"
    by (simp add: createOrderOfArgs_def SliceIndex_def)
next
  assume "fs = [TextFragment t0, ParameterFragment p0, TextFragment t1, ParameterFragment p1]"
  then show "generateNewStepName e agent [x0, x1] [0 \<mapsto> 1, 1 \<mapsto> 0] =
              Returns (convertToStepText e
                         [TextFragment t0, ParameterFragment (p0\<lparr>Value := x1\<rparr>),
                          TextFragment t1, ParameterFragment (p1\<lparr>Value := x0\<rparr>)],
                       agent\<lparr>newStep := (newStep agent)
                               \<lparr>fragments := [TextFragment t0, ParameterFragment (p0\<lparr>Value := x1\<rparr>),
                                              TextFragment t1, ParameterFragment (p1\<lparr>Value := x0\<rparr>)]\<rparr>\<rparr>)"
    unfolding generateNewStepName_def pf by (simp add: mapIndex_def)
qed

theorem generateNewStepName_substitutes_witness:
  "createOrderOfArgs (String sampleEnv) sampleAgent = [0 \<mapsto> 1, 1 \<mapsto> 0] \<and>
   generateNewStepName sampleEnv sampleAgent [''payer'', ''payee''] [0 \<mapsto> 1, 1 \<mapsto> 0] =
     Returns (''transfer <payee> from <payer>'',
              sampleAgent\<lparr>newStep := sampleNewStep
                 \<lparr>fragments := [TextFragment ''transfer '',
                                ParameterFragment \<lparr>ParameterType = Dynamic, Value = ''payee''\<rparr>,
                                TextFragment '' from '',
                                ParameterFragment \<lparr>ParameterType = Dynamic, Value = ''payer''\<rparr>]\<rparr>\<rparr>) \<and>
   (\<exists>p. generateNewStepName sampleEnv sampleAgent [''payer''] [0 \<mapsto> 1, 1 \<mapsto> 0] = Panics p) \<and>
   (\<exists>name agent'. generateNewStepName sampleEnv sampleAgent [''payer''] [0 \<mapsto> - 1, 1 \<mapsto> 0]
       = Returns (name, agent') \<and>
       fragments (newStep agent') ! 1 = ParameterFragment \<lparr>ParameterType = Dynamic, Value = ''to''\<rparr> \<and>
       fragments (newStep agent') ! 3 = ParameterFragment \<lparr>ParameterType = Dynamic, Value = ''payer''\<rparr>)"
proof -
  let ?fs = "[TextFragment ''transfer '', ParameterFragment \<lparr>ParameterType = Dynamic, Value = ''to''\<rparr>,
              TextFragment '' from '', ParameterFragment \<lparr>ParameterType = Dynamic, Value = ''from''\<rparr>]"
  have pf: "populateFragments sampleEnv (newStep sampleAgent) = ?fs"
    by (simp add: sampleEnv_def)
  have ar: "args (oldStep sampleAgent) = [''from'', ''to''] \<and> args (newStep sampleAgent) = [''to'', ''from'']
              \<and> String sampleEnv ''from'' \<noteq> String sampleEnv ''to''"
    by (simp add: sampleAgent_def sampleOldStep_def sampleNewStep_def sampleEnv_def)
  have cs: "convertToStepText sampleEnv = sampleStepText" by (simp add: sampleEnv_def)
  have ns: "newStep sampleAgent = sampleNewStep" by (simp add: sampleAgent_def)
  note t = generateNewStepName_substitutes [OF pf]
  from t [of _ _ "''from''" "''to''" "String sampleEnv"] ar
  have c1: "createOrderOfArgs (String sampleEnv) sampleAgent = [0 \<mapsto> 1, 1 \<mapsto> 0]" by blast
  from t [of _ _ _ _ _ "''transfer ''" "\<lparr>ParameterType = Dynamic, Value = ''to''\<rparr>" "'' from ''"
            "\<lparr>ParameterType = Dynamic, Value = ''from''\<rparr>" "''payer''" "''payee''"]
  have c2: "generateNewStepName sampleEnv sampleAgent [''payer'', ''payee''] [0 \<mapsto> 1, 1 \<mapsto> 0] =
     Returns (''transfer <payee> from <payer>'',
              sampleAgent\<lparr>newStep := sampleNewStep
                 \<lparr>fragments := [TextFragment ''transfer '',
                                ParameterFragment \<lparr>ParameterType = Dynamic, Value = ''payee''\<rparr>,
                                TextFragment '' from '',
                                ParameterFragment \<lparr>ParameterType = Dynamic, Value = ''payer''\<rparr>]\<rparr>\<rparr>)"
    by (simp add: cs ns)
  have c3: "\<exists>p. generateNewStepName sampleEnv sampleAgent [''payer''] [0 \<mapsto> 1, 1 \<mapsto> 0] = Panics p"
    unfolding generateNewStepName_def pf by (simp add: mapIndex_def)
  have c4: "\<exists>name agent'. generateNewStepName sampleEnv sampleAgent [''payer''] [0 \<mapsto> - 1, 1 \<mapsto> 0]
       = Returns (name, agent') \<and>
       fragments (newStep agent') ! 1 = ParameterFragment \<lparr>ParameterType = Dynamic, Value = ''to''\<rparr> \<and>
       fragments (newStep agent') ! 3 = ParameterFragment \<lparr>ParameterType = Dynamic, Value = ''payer''\<rparr>"
    unfolding generateNewStepName_def pf by (simp add: mapIndex_def)
  from c1 c2 c3 c4 show ?thesis by blast
qed

subsection \<open>The document rewriter and the writer\<close>

lemma rename_result:
  "rename st oldSt newSt isRefactored orderMap c = (st', r, c') \<Longrightarrow>
     r = (isRefactored \<or> val st = val oldSt)"
  by (auto simp: rename_def split: if_splits)

lemma renameSteps_loop_result:
  "renameSteps_loop oldSt newSt orderMap sts isRefactored = (sts', r) \<Longrightarrow>
     r = (isRefactored \<or> (\<exists>st \<in> set sts. val st = val oldSt))"
proof (induction sts arbitrary: isRefactored sts' r)
  case Nil
  then show ?case by simp
next
  case (Cons st rest)
  obtain st' b c where rn: "rename st oldSt newSt isRefactored orderMap False = (st', b, c)"
    by (cases "rename st oldSt newSt isRefactored orderMap False") auto
  obtain rest' r' where lp: "renameSteps_loop oldSt newSt orderMap rest b = (rest', r')"
    by (cases "renameSteps_loop oldSt newSt orderMap rest b") auto
  from Cons.prems rn lp have "r = r'" by simp
  moreover from Cons.IH [OF lp] have "r' = (b \<or> (\<exists>st \<in> set rest. val st = val oldSt))" .
  moreover from rename_result [OF rn] have "b = (isRefactored \<or> val st = val oldSt)" .
  ultimately show ?case by auto
qed

lemma renameSteps_result:
  "renameSteps spec oldSt newSt orderMap = (r, spec') \<Longrightarrow>
     r = (\<exists>st \<in> set (occurrences spec). val st = val oldSt) \<and> fileName spec' = fileName spec"
proof -
  assume a: "renameSteps spec oldSt newSt orderMap = (r, spec')"
  obtain sts b where lp: "renameSteps_loop oldSt newSt orderMap (occurrences spec) False = (sts, b)"
    by (cases "renameSteps_loop oldSt newSt orderMap (occurrences spec) False") auto
  with a have "r = b" "spec' = spec\<lparr>occurrences := sts\<rparr>" by (simp_all add: renameSteps_def)
  with renameSteps_loop_result [OF lp] show ?thesis by simp
qed

lemma rephraseInSpecs_loop_result:
  "rephraseInSpecs_loop oldSt newSt orderMap i specs m = (specs', m') \<Longrightarrow>
     map fileName specs' = map fileName specs \<and>
     (\<forall>k. m' k = (if i \<le> k \<and> k < i + length specs
                   then Some (\<exists>st \<in> set (occurrences (specs ! (k - i))). val st = val oldSt)
                   else m k))"
proof (induction specs arbitrary: i m specs' m')
  case Nil
  then show ?case by auto
next
  case (Cons spec rest)
  obtain r spec1 where rs: "renameSteps spec oldSt newSt orderMap = (r, spec1)"
    by (cases "renameSteps spec oldSt newSt orderMap") auto
  obtain rest' m1 where lp: "rephraseInSpecs_loop oldSt newSt orderMap (Suc i) rest (m(i \<mapsto> r)) = (rest', m1)"
    by (cases "rephraseInSpecs_loop oldSt newSt orderMap (Suc i) rest (m(i \<mapsto> r))") auto
  from Cons.prems rs lp have eq: "specs' = spec1 # rest'" "m' = m1" by simp_all
  note ih = Cons.IH [OF lp]
  note rr = renameSteps_result [OF rs]
  have "m' k = (if i \<le> k \<and> k < i + length (spec # rest)
                   then Some (\<exists>st \<in> set (occurrences ((spec # rest) ! (k - i))). val st = val oldSt)
                   else m k)" for k
  proof (cases "k = i")
    case True
    with ih eq rr show ?thesis by simp
  next
    case False
    have "(spec # rest) ! (k - i) = rest ! (k - Suc i)" if "Suc i \<le> k"
      using that by (simp add: nth_Cons')
    with False ih eq show ?thesis by auto
  qed
  with ih eq rr show ?case by simp
qed

lemma writeSpecs_loop_result:
  "writeSpecs_loop e i specs m =
     (map (\<lambda>(k, s). fileName s) (filter (\<lambda>(k, s). mapBool m k) (enumerate i specs)),
      map (\<lambda>(k, s). EvSaveFile (fileName s) (formatSpecification e s))
        (filter (\<lambda>(k, s). mapBool m k) (enumerate i specs)))"
  by (induction specs arbitrary: i) simp_all

lemma writeConcepts_loop_result:
  "writeConcepts_loop cm m =
     (map fst (filter (\<lambda>(f, t). mapBool m f) cm),
      map (\<lambda>(f, t). EvSaveFile f t) (filter (\<lambda>(f, t). mapBool m f) cm))"
  by (induction cm) auto

lemma rephraseInItems_loop_result:
  "rephraseInItems_loop oldSt newSt orderMap file its m c = (its', m', c') \<Longrightarrow>
     (\<forall>f. mapBool m' f =
        (if f = file then mapBool m file \<or> (\<exists>st. StepItem st \<in> set its \<and> val st = val oldSt)
         else mapBool m f))"
proof (induction its arbitrary: m c its' m' c')
  case Nil
  then show ?case by simp
next
  case (Cons it rest)
  show ?case
  proof (cases it)
    case (StepItem st)
    obtain st' r c1 where rn: "rename st oldSt newSt (mapBool m file) orderMap c = (st', r, c1)"
      by (cases "rename st oldSt newSt (mapBool m file) orderMap c") auto
    let ?m1 = "m(file \<mapsto> (kind it = stepKind \<and> r \<or> mapBool m file))"
    obtain rest' m2 c2 where lp: "rephraseInItems_loop oldSt newSt orderMap file rest ?m1 c1 = (rest', m2, c2)"
      by (cases "rephraseInItems_loop oldSt newSt orderMap file rest ?m1 c1") auto
    from Cons.prems StepItem rn lp have eq: "m' = m2" by (simp add: Let_def)
    from rename_result [OF rn] have r: "r = (mapBool m file \<or> val st = val oldSt)" .
    from Cons.IH [OF lp] eq r StepItem show ?thesis
      by (auto simp: mapBool_def)
  next
    case (CommentItem x)
    let ?m1 = "m(file \<mapsto> (kind it = stepKind \<and> False \<or> mapBool m file))"
    obtain rest' m2 c2 where lp: "rephraseInItems_loop oldSt newSt orderMap file rest ?m1 c = (rest', m2, c2)"
      by (cases "rephraseInItems_loop oldSt newSt orderMap file rest ?m1 c") auto
    from Cons.prems CommentItem lp have eq: "m' = m2" by (simp add: Let_def)
    from Cons.IH [OF lp] eq CommentItem show ?thesis
      by (auto simp: mapBool_def)
  next
    case (TableItem x)
    let ?m1 = "m(file \<mapsto> (kind it = stepKind \<and> False \<or> mapBool m file))"
    obtain rest' m2 c2 where lp: "rephraseInItems_loop oldSt newSt orderMap file rest ?m1 c = (rest', m2, c2)"
      by (cases "rephraseInItems_loop oldSt newSt orderMap file rest ?m1 c") auto
    from Cons.prems TableItem lp have eq: "m' = m2" by (simp add: Let_def)
    from Cons.IH [OF lp] eq TableItem show ?thesis
      by (auto simp: mapBool_def)
  qed
qed

lemma rephraseInConcepts_loop_result:
  "rephraseInConcepts_loop oldSt newSt orderMap concepts m c = (concepts', m', c') \<Longrightarrow>
     (\<forall>f. mapBool m' f =
        (mapBool m f \<or>
         (\<exists>(key, concept) \<in> set concepts. conceptFileName concept = f \<and>
            (\<exists>st. StepItem st \<in> set (conceptStepItems concept) \<and> val st = val oldSt))))"
proof (induction concepts arbitrary: m c concepts' m' c')
  case Nil
  then show ?case by simp
next
  case (Cons kc rest)
  obtain key concept where kc: "kc = (key, concept)" by (cases kc) auto
  let ?file = "conceptFileName concept"
  let ?m0 = "m(?file \<mapsto> (\<not> (m ?file \<noteq> None) \<and> False \<or> mapBool m ?file))"
  obtain its' m1 c1 where it: "rephraseInItems_loop oldSt newSt orderMap ?file (conceptStepItems concept) ?m0 c
                                 = (its', m1, c1)"
    by (cases "rephraseInItems_loop oldSt newSt orderMap ?file (conceptStepItems concept) ?m0 c") auto
  obtain rest' m2 c2 where lp: "rephraseInConcepts_loop oldSt newSt orderMap rest m1 c1 = (rest', m2, c2)"
    by (cases "rephraseInConcepts_loop oldSt newSt orderMap rest m1 c1") auto
  from Cons.prems kc it lp have eq: "m' = m2" by (simp add: Let_def)
  have m0: "mapBool ?m0 f = mapBool m f" for f by (simp add: mapBool_def)
  from rephraseInItems_loop_result [OF it] m0
  have m1: "mapBool m1 f =
        (if f = ?file then mapBool m ?file \<or> (\<exists>st. StepItem st \<in> set (conceptStepItems concept) \<and> val st = val oldSt)
         else mapBool m f)" for f by simp
  from Cons.IH [OF lp] have m2: "mapBool m2 f =
        (mapBool m1 f \<or>
         (\<exists>(key, concept) \<in> set rest. conceptFileName concept = f \<and>
            (\<exists>st. StepItem st \<in> set (conceptStepItems concept) \<and> val st = val oldSt)))" for f by blast
  show ?case unfolding eq kc
  proof
    fix f
    show "mapBool m2 f =
        (mapBool m f \<or>
         (\<exists>(key, concept) \<in> set ((key, concept) # rest). conceptFileName concept = f \<and>
            (\<exists>st. StepItem st \<in> set (conceptStepItems concept) \<and> val st = val oldSt)))"
      unfolding m2 [of f] m1 [of f] by auto
  qed
qed


lemma rephraseInSpecsAndConcepts_result:
  assumes rp: "rephraseInSpecsAndConcepts e agent specs dict
                 = (agent1, specs1, dict1, specsRefactored, conceptFilesRefactored, evs1)"
  shows "oldStep agent1 = oldStep agent \<and> newStep agent1 = newStep agent"
    and "map fileName specs1 = map fileName specs"
    and "\<forall>i < length specs. mapBool specsRefactored i
           = (\<exists>st \<in> set (occurrences (specs ! i)). val st = val (oldStep agent))"
    and "\<forall>f. mapBool conceptFilesRefactored f
           = (\<exists>(key, concept) \<in> set (conceptsMap dict). conceptFileName concept = f \<and>
                (\<exists>st. StepItem st \<in> set (conceptStepItems concept) \<and> val st = val (oldStep agent)))"
    and "\<forall>ev \<in> set evs1. isDocumentMutation ev"
proof -
  let ?om = "createOrderOfArgs (String e) agent"
  obtain s1 m1 where a: "rephraseInSpecs_loop (oldStep agent) (newStep agent) ?om 0 specs Map.empty = (s1, m1)"
    by (cases "rephraseInSpecs_loop (oldStep agent) (newStep agent) ?om 0 specs Map.empty") auto
  obtain c1 m2 ic where b: "rephraseInConcepts_loop (oldStep agent) (newStep agent) ?om
                              (conceptsMap dict) Map.empty False = (c1, m2, ic)"
    by (cases "rephraseInConcepts_loop (oldStep agent) (newStep agent) ?om
                 (conceptsMap dict) Map.empty False") auto
  from rp a b have eqs: "agent1 = agent\<lparr>isConcept := ic\<rparr>" "specs1 = s1" "specsRefactored = m1"
    "conceptFilesRefactored = m2"
    "evs1 = map (\<lambda>spec. EvRenameSteps (fileName spec)) specs @
            concat (map (\<lambda>(key, concept).
                           map (\<lambda>it. EvRename (conceptFileName concept))
                             (filter (\<lambda>it. kind it = stepKind) (conceptStepItems concept)))
                      (conceptsMap dict))"
    by (simp_all add: rephraseInSpecsAndConcepts_def Let_def)
  from eqs(1) show "oldStep agent1 = oldStep agent \<and> newStep agent1 = newStep agent" by simp
  from rephraseInSpecs_loop_result [OF a] eqs(2) show "map fileName specs1 = map fileName specs" by simp
  from rephraseInSpecs_loop_result [OF a] eqs(3)
  show "\<forall>i < length specs. mapBool specsRefactored i
           = (\<exists>st \<in> set (occurrences (specs ! i)). val st = val (oldStep agent))"
    by (simp add: mapBool_def)
  from rephraseInConcepts_loop_result [OF b] eqs(4)
  show "\<forall>f. mapBool conceptFilesRefactored f
           = (\<exists>(key, concept) \<in> set (conceptsMap dict). conceptFileName concept = f \<and>
                (\<exists>st. StepItem st \<in> set (conceptStepItems concept) \<and> val st = val (oldStep agent)))"
    by (simp add: mapBool_def)
  from eqs(5) show "\<forall>ev \<in> set evs1. isDocumentMutation ev" by auto
qed

lemma writeToConceptAndSpecFiles_result:
  assumes wr: "writeToConceptAndSpecFiles e specs1 dict1 specsRefactored conceptFilesRefactored
                 = (specFiles, conceptFiles, evs2)"
  shows "specFiles = map (\<lambda>(k, s). fileName s)
                       (filter (\<lambda>(k, s). mapBool specsRefactored k) (enumerate 0 specs1))"
    and "conceptFiles = map fst (filter (\<lambda>(f, t). mapBool conceptFilesRefactored f)
                                   (formatConcepts e dict1))"
    and "evs2 = map (\<lambda>(k, s). EvSaveFile (fileName s) (formatSpecification e s))
                  (filter (\<lambda>(k, s). mapBool specsRefactored k) (enumerate 0 specs1))
                @ map (\<lambda>(f, t). EvSaveFile f t)
                    (filter (\<lambda>(f, t). mapBool conceptFilesRefactored f) (formatConcepts e dict1))"
  using wr by (simp_all add: writeToConceptAndSpecFiles_def writeSpecs_loop_result
                 writeConcepts_loop_result)

lemma startRunner_events:
  "snd (startRunner e) = [EvLoadGaugeEnvironment, EvStartAPIService 0, EvStartRunnerAndMakeConnection]"
  by (simp add: startRunner_def split: option.splits)

lemma startRunner_error:
  "fst (startRunner e) = (case startRunnerAndMakeConnection e of
                            None \<Rightarrow> None
                          | Some err \<Rightarrow> Some (''Failed to connect to test runner: '' @ err))"
  by (simp add: startRunner_def split: option.splits)

lemma getStepNameFromRunner_events:
  "snd (getStepNameFromRunner e agent) = [EvStepNameRequest (val (oldStep agent))]"
  by (simp add: getStepNameFromRunner_def split: sum.splits)

lemma requestRunnerForRefactoring_events:
  "\<forall>ev \<in> set (snd (requestRunnerForRefactoring e agent stepName)). isRunnerContact ev"
  by (simp add: requestRunnerForRefactoring_def Let_def split: outcome.splits sum.splits)

lemma performRefactoringOn_cases [consumes 2, case_names connection namePanic nameError requestPanic requestError succeeded]:
  assumes rp: "rephraseInSpecsAndConcepts e agent specs dict
                 = (agent1, specs1, dict1, specsRefactored, conceptFilesRefactored, evs1)"
      and wr: "writeToConceptAndSpecFiles e specs1 dict1 specsRefactored conceptFilesRefactored
                 = (specFiles, conceptFiles, evs2)"
  obtains
    (connection) connErr where
      "fst (startRunner e) = Some connErr"
      "performRefactoringOn e agent specs dict =
         \<lparr>states = [\<lparr>success = False, specsChanged = specFiles, conceptsChanged = conceptFiles,
                     runnerFilesChanged = [], errors = [], warnings = []\<rparr>,
                    \<lparr>success = False, specsChanged = specFiles, conceptsChanged = conceptFiles,
                     runnerFilesChanged = [], errors = [connErr], warnings = []\<rparr>],
          panicked = None, events = evs1 @ evs2 @ snd (startRunner e)\<rparr>"
  | (namePanic) p where
      "fst (startRunner e) = None" "fst (getStepNameFromRunner e agent1) = Panics p"
      "performRefactoringOn e agent specs dict =
         \<lparr>states = [\<lparr>success = False, specsChanged = specFiles, conceptsChanged = conceptFiles,
                     runnerFilesChanged = [], errors = [], warnings = []\<rparr>],
          panicked = Some p,
          events = evs1 @ evs2 @ snd (startRunner e) @ snd (getStepNameFromRunner e agent1) @ [EvKill]\<rparr>"
  | (nameError) err where
      "fst (startRunner e) = None" "fst (getStepNameFromRunner e agent1) = Returns (Inl err)"
      "performRefactoringOn e agent specs dict =
         \<lparr>states = [\<lparr>success = False, specsChanged = specFiles, conceptsChanged = conceptFiles,
                     runnerFilesChanged = [], errors = [], warnings = []\<rparr>,
                    \<lparr>success = False, specsChanged = specFiles, conceptsChanged = conceptFiles,
                     runnerFilesChanged = [], errors = [err], warnings = []\<rparr>],
          panicked = None,
          events = evs1 @ evs2 @ snd (startRunner e) @ snd (getStepNameFromRunner e agent1) @ [EvKill]\<rparr>"
  | (requestPanic) stepName p where
      "fst (startRunner e) = None" "fst (getStepNameFromRunner e agent1) = Returns (Inr stepName)"
      "fst (requestRunnerForRefactoring e agent1 stepName) = Panics p"
      "performRefactoringOn e agent specs dict =
         \<lparr>states = [\<lparr>success = False, specsChanged = specFiles, conceptsChanged = conceptFiles,
                     runnerFilesChanged = [], errors = [], warnings = []\<rparr>],
          panicked = Some p,
          events = evs1 @ evs2 @ snd (startRunner e) @ snd (getStepNameFromRunner e agent1)
                     @ snd (requestRunnerForRefactoring e agent1 stepName) @ [EvKill]\<rparr>"
  | (requestError) stepName runnerFiles err where
      "fst (startRunner e) = None" "fst (getStepNameFromRunner e agent1) = Returns (Inr stepName)"
      "fst (requestRunnerForRefactoring e agent1 stepName) = Returns (runnerFiles, Some err)"
      "performRefactoringOn e agent specs dict =
         \<lparr>states = [\<lparr>success = False, specsChanged = specFiles, conceptsChanged = conceptFiles,
                     runnerFilesChanged = [], errors = [], warnings = []\<rparr>,
                    \<lparr>success = False, specsChanged = specFiles, conceptsChanged = conceptFiles,
                     runnerFilesChanged = [],
                     errors = [''Only spec files and concepts refactored: '' @ err], warnings = []\<rparr>],
          panicked = None,
          events = evs1 @ evs2 @ snd (startRunner e) @ snd (getStepNameFromRunner e agent1)
                     @ snd (requestRunnerForRefactoring e agent1 stepName) @ [EvKill]\<rparr>"
  | (succeeded) stepName runnerFiles where
      "fst (startRunner e) = None" "fst (getStepNameFromRunner e agent1) = Returns (Inr stepName)"
      "fst (requestRunnerForRefactoring e agent1 stepName) = Returns (runnerFiles, None)"
      "performRefactoringOn e agent specs dict =
         \<lparr>states = [\<lparr>success = False, specsChanged = specFiles, conceptsChanged = conceptFiles,
                     runnerFilesChanged = [], errors = [], warnings = []\<rparr>,
                    \<lparr>success = True, specsChanged = specFiles, conceptsChanged = conceptFiles,
                     runnerFilesChanged = [], errors = [], warnings = []\<rparr>,
                    \<lparr>success = True, specsChanged = specFiles, conceptsChanged = conceptFiles,
                     runnerFilesChanged = runnerFiles, errors = [], warnings = []\<rparr>],
          panicked = None,
          events = evs1 @ evs2 @ snd (startRunner e) @ snd (getStepNameFromRunner e agent1)
                     @ snd (requestRunnerForRefactoring e agent1 stepName) @ [EvKill]\<rparr>"
proof -
  obtain c evs3 where sr: "startRunner e = (c, evs3)" by (cases "startRunner e") auto
  show thesis
  proof (cases c)
    case (Some connErr)
    show thesis
      by (rule connection [of connErr]) (simp_all add: performRefactoringOn_def rp wr sr Some)
  next
    case None
    obtain n evs4 where gn: "getStepNameFromRunner e agent1 = (n, evs4)"
      by (cases "getStepNameFromRunner e agent1") auto
    show thesis
    proof (cases n)
      case (Panics p)
      show thesis
        by (rule namePanic [of p]) (simp_all add: performRefactoringOn_def rp wr sr None gn Panics)
    next
      case (Returns x)
      show thesis
      proof (cases x)
        case (Inl err)
        show thesis
          by (rule nameError [of err])
             (simp_all add: performRefactoringOn_def rp wr sr None gn Returns Inl)
      next
        case (Inr stepName)
        obtain q evs5 where rq: "requestRunnerForRefactoring e agent1 stepName = (q, evs5)"
          by (cases "requestRunnerForRefactoring e agent1 stepName") auto
        show thesis
        proof (cases q)
          case (Panics p)
          show thesis
            by (rule requestPanic [of stepName p])
               (simp_all add: performRefactoringOn_def rp wr sr None gn Returns Inr rq Panics)
        next
          case R: (Returns y)
          obtain runnerFiles eo where y: "y = (runnerFiles, eo)" by (cases y) auto
          show thesis
          proof (cases eo)
            case N: None
            show thesis
              by (rule succeeded [of stepName runnerFiles])
                 (simp_all add: performRefactoringOn_def rp wr sr None gn Returns Inr rq R y N)
          next
            case (Some err)
            show thesis
              by (rule requestError [of stepName runnerFiles err])
                 (simp_all add: performRefactoringOn_def rp wr sr None gn Returns Inr rq R y Some)
          qed
        qed
      qed
    qed
  qed
qed

lemma runner_events_no_write:
  "filter isFileWrite (snd (startRunner e)) = []"
  "filter isFileWrite (snd (getStepNameFromRunner e agent)) = []"
  "filter isFileWrite (snd (requestRunnerForRefactoring e agent stepName)) = []"
  by (simp_all add: startRunner_events getStepNameFromRunner_events
        requestRunnerForRefactoring_def Let_def split: outcome.splits sum.splits)

lemma performRefactoringOn_writes:
  assumes rp: "rephraseInSpecsAndConcepts e agent specs dict
                 = (agent1, specs1, dict1, specsRefactored, conceptFilesRefactored, evs1)"
      and wr: "writeToConceptAndSpecFiles e specs1 dict1 specsRefactored conceptFilesRefactored
                 = (specFiles, conceptFiles, evs2)"
  shows "filter isFileWrite (events (performRefactoringOn e agent specs dict)) = evs2"
    and "\<forall>s \<in> set (states (performRefactoringOn e agent specs dict)).
           specsChanged s = specFiles \<and> conceptsChanged s = conceptFiles"
proof -
  have nw: "\<not> isFileWrite ev" if "isDocumentMutation ev" for ev
    using that by (cases ev) simp_all
  from rephraseInSpecsAndConcepts_result(5) [OF rp] nw
  have "\<forall>ev \<in> set evs1. \<not> isFileWrite ev" by blast
  then have f1: "filter isFileWrite evs1 = []" by (simp add: filter_empty_conv)
  have "\<forall>ev \<in> set evs2. isFileWrite ev"
    unfolding writeToConceptAndSpecFiles_result(3) [OF wr] by auto
  then have f2: "filter isFileWrite evs2 = evs2" by (simp add: filter_id_conv)
  note f3 = runner_events_no_write
  from rp wr show "filter isFileWrite (events (performRefactoringOn e agent specs dict)) = evs2"
  proof (cases rule: performRefactoringOn_cases)
    case (connection connErr)
    show ?thesis unfolding connection(2) by (simp add: f1 f2 f3)
  next
    case (namePanic p)
    show ?thesis unfolding namePanic(3) by (simp add: f1 f2 f3)
  next
    case (nameError err)
    show ?thesis unfolding nameError(3) by (simp add: f1 f2 f3)
  next
    case (requestPanic stepName p)
    show ?thesis unfolding requestPanic(4) by (simp add: f1 f2 f3)
  next
    case (requestError stepName runnerFiles err)
    show ?thesis unfolding requestError(4) by (simp add: f1 f2 f3)
  next
    case (succeeded stepName runnerFiles)
    show ?thesis unfolding succeeded(4) by (simp add: f1 f2 f3)
  qed
  from rp wr show "\<forall>s \<in> set (states (performRefactoringOn e agent specs dict)).
           specsChanged s = specFiles \<and> conceptsChanged s = conceptFiles"
  proof (cases rule: performRefactoringOn_cases)
    case (connection connErr)
    show ?thesis unfolding connection(2) by simp
  next
    case (namePanic p)
    show ?thesis unfolding namePanic(3) by simp
  next
    case (nameError err)
    show ?thesis unfolding nameError(3) by simp
  next
    case (requestPanic stepName p)
    show ?thesis unfolding requestPanic(4) by simp
  next
    case (requestError stepName runnerFiles err)
    show ?thesis unfolding requestError(4) by simp
  next
    case (succeeded stepName runnerFiles)
    show ?thesis unfolding succeeded(4) by simp
  qed
qed

lemma specFiles_nonempty:
  assumes rp: "rephraseInSpecsAndConcepts e agent specs dict
                 = (agent1, specs1, dict1, specsRefactored, conceptFilesRefactored, evs1)"
      and wr: "writeToConceptAndSpecFiles e specs1 dict1 specsRefactored conceptFilesRefactored
                 = (specFiles, conceptFiles, evs2)"
      and m: "\<exists>spec \<in> set specs. \<exists>st \<in> set (occurrences spec). val st = val (oldStep agent)"
  shows "specFiles \<noteq> []"
proof -
  from m obtain i where i: "i < length specs"
    "\<exists>st \<in> set (occurrences (specs ! i)). val st = val (oldStep agent)"
    by (metis in_set_conv_nth)
  with rephraseInSpecsAndConcepts_result(3) [OF rp] have flag: "mapBool specsRefactored i" by simp
  from rephraseInSpecsAndConcepts_result(2) [OF rp] have "length specs1 = length specs"
    by (metis length_map)
  with i have "(i, specs1 ! i) \<in> set (enumerate 0 specs1)" by (simp add: in_set_enumerate_eq)
  with flag have "filter (\<lambda>(k, s). mapBool specsRefactored k) (enumerate 0 specs1) \<noteq> []"
    by (auto simp: filter_empty_conv)
  then show ?thesis unfolding writeToConceptAndSpecFiles_result(1) [OF wr] by simp
qed

lemma conceptFiles_nonempty:
  assumes rp: "rephraseInSpecsAndConcepts e agent specs dict
                 = (agent1, specs1, dict1, specsRefactored, conceptFilesRefactored, evs1)"
      and wr: "writeToConceptAndSpecFiles e specs1 dict1 specsRefactored conceptFilesRefactored
                 = (specFiles, conceptFiles, evs2)"
      and m: "\<exists>(f, t) \<in> set (formatConcepts e dict1).
                \<exists>(key, concept) \<in> set (conceptsMap dict). conceptFileName concept = f \<and>
                  (\<exists>st. StepItem st \<in> set (conceptStepItems concept) \<and> val st = val (oldStep agent))"
  shows "conceptFiles \<noteq> []"
proof -
  from m obtain f t where ft: "(f, t) \<in> set (formatConcepts e dict1)"
    "\<exists>(key, concept) \<in> set (conceptsMap dict). conceptFileName concept = f \<and>
       (\<exists>st. StepItem st \<in> set (conceptStepItems concept) \<and> val st = val (oldStep agent))"
    by blast
  with rephraseInSpecsAndConcepts_result(4) [OF rp] have "mapBool conceptFilesRefactored f" by simp
  with ft(1) have "filter (\<lambda>(f, t). mapBool conceptFilesRefactored f) (formatConcepts e dict1) \<noteq> []"
    by (auto simp: filter_empty_conv)
  then show ?thesis unfolding writeToConceptAndSpecFiles_result(2) [OF wr] by simp
qed

lemma saved_names:
  assumes wr: "writeToConceptAndSpecFiles e specs1 dict1 specsRefactored conceptFilesRefactored
                 = (specFiles, conceptFiles, evs2)"
  shows "[f. EvSaveFile f t \<leftarrow> evs2] = specFiles @ conceptFiles"
proof -
  have a: "[f. EvSaveFile f t \<leftarrow> map (\<lambda>(k, s). EvSaveFile (fileName s) (formatSpecification e s)) xs]
             = map (\<lambda>(k, s). fileName s) xs" for xs :: "(nat \<times> 'a specificationDoc) list"
    by (induction xs) auto
  have b: "[f. EvSaveFile f t \<leftarrow> map (\<lambda>(f, t). EvSaveFile f t) ys] = map fst ys"
    for ys :: "(string \<times> string) list"
    by (induction ys) auto
  show ?thesis
    unfolding writeToConceptAndSpecFiles_result [OF wr]
    using a b by simp
qed

subsection \<open>The sample project, evaluated\<close>

lemmas sample_defs = sampleEnv_def sampleEnvRefused_def sampleAgent_def
  sampleSpecs_def sampleDictionary_def sampleOldStep_def sampleNewStep_def sampleOtherStep_def

lemmas model_defs = performRefactoringOn_def rephraseInSpecsAndConcepts_def
  writeToConceptAndSpecFiles_def startRunner_def getStepNameFromRunner_def
  requestRunnerForRefactoring_def createRefactorRequest_def getStepValueFor_def
  generateNewStepName_def createParameterPositions_def sendRefactorRequest_def
  createOrderOfArgs_def SliceIndex_def renameSteps_def rename_def getArgsInOrder_def
  mapBool_def mapIndex_def proto_Int_def


lemma sample_states:
  "states (performRefactoringOn sampleEnv sampleAgent sampleSpecs sampleDictionary) =
     [\<lparr>success = False, specsChanged = [''transfer.spec''], conceptsChanged = [''pay.cpt''],
       runnerFilesChanged = [], errors = [], warnings = []\<rparr>,
      \<lparr>success = True, specsChanged = [''transfer.spec''], conceptsChanged = [''pay.cpt''],
       runnerFilesChanged = [], errors = [], warnings = []\<rparr>,
      \<lparr>success = True, specsChanged = [''transfer.spec''], conceptsChanged = [''pay.cpt''],
       runnerFilesChanged = [''Steps.java''], errors = [], warnings = []\<rparr>]"
  by (simp add: sample_defs model_defs Let_def)

subsection \<open>The stages of the refactoring\<close>







text \<open>
  Claim C3. When a runner-layer stage of \<open>performRefactoringOn\<close> fails (the connection,
  the resolution of the step name, or the refactor request), the call returns a result
  that still holds the lists of specification and concept files that were computed and
  written (every file written is in the lists, and the lists are non-empty as soon as a
  specification holds an occurrence of the old step, or a concept file that the
  formatter hands back does), whose success flag is false, whose runner files are empty,
  and whose only error is that of the failed stage; for the refactor request it is
  prefixed with \<open>Only spec files and concepts refactored: \<close>.
\<close>

theorem runner_failure_keeps_document_changes:
  assumes rp: "rephraseInSpecsAndConcepts e agent specs dict
                 = (agent1, specs1, dict1, specsRefactored, conceptFilesRefactored, evs1)"
      and wr: "writeToConceptAndSpecFiles e specs1 dict1 specsRefactored conceptFilesRefactored
                 = (specFiles, conceptFiles, evs2)"
      and fail:
        "(\<exists>connErr. startRunnerAndMakeConnection e = Some connErr \<and>
                    msg = ''Failed to connect to test runner: '' @ connErr) \<or>
         (startRunnerAndMakeConnection e = None \<and>
            fst (getStepNameFromRunner e agent1) = Returns (Inl msg)) \<or>
         (startRunnerAndMakeConnection e = None \<and>
            (\<exists>stepName runnerFiles err.
               fst (getStepNameFromRunner e agent1) = Returns (Inr stepName) \<and>
               fst (requestRunnerForRefactoring e agent1 stepName) = Returns (runnerFiles, Some err) \<and>
               msg = ''Only spec files and concepts refactored: '' @ err))"
  shows "panicked (performRefactoringOn e agent specs dict) = None \<and>
         last (states (performRefactoringOn e agent specs dict)) =
           \<lparr>success = False, specsChanged = specFiles, conceptsChanged = conceptFiles,
            runnerFilesChanged = [], errors = [msg], warnings = []\<rparr> \<and>
         [f. EvSaveFile f t \<leftarrow> events (performRefactoringOn e agent specs dict)]
           = specFiles @ conceptFiles \<and>
         ((\<exists>spec \<in> set specs. \<exists>st \<in> set (occurrences spec). val st = val (oldStep agent))
            \<longrightarrow> specFiles \<noteq> []) \<and>
         ((\<exists>(f, t) \<in> set (formatConcepts e dict1).
             \<exists>(key, concept) \<in> set (conceptsMap dict). conceptFileName concept = f \<and>
               (\<exists>st. StepItem st \<in> set (conceptStepItems concept) \<and> val st = val (oldStep agent)))
            \<longrightarrow> conceptFiles \<noteq> [])"
proof -
  have sv: "[f. EvSaveFile f t \<leftarrow> xs] = [f. EvSaveFile f t \<leftarrow> filter isFileWrite xs]" for xs
    by (induction xs) (auto split: event.splits)
  have c3: "[f. EvSaveFile f t \<leftarrow> events (performRefactoringOn e agent specs dict)]
              = specFiles @ conceptFiles"
    using sv [of "events (performRefactoringOn e agent specs dict)"]
    unfolding performRefactoringOn_writes(1) [OF rp wr] saved_names [OF wr] .
  have c12: "panicked (performRefactoringOn e agent specs dict) = None \<and>
         last (states (performRefactoringOn e agent specs dict)) =
           \<lparr>success = False, specsChanged = specFiles, conceptsChanged = conceptFiles,
            runnerFilesChanged = [], errors = [msg], warnings = []\<rparr>"
    using rp wr
  proof (cases rule: performRefactoringOn_cases)
    case (connection connErr)
    with fail show ?thesis by (auto simp: startRunner_error split: option.splits)
  next
    case (namePanic p)
    with fail show ?thesis by (auto simp: startRunner_error split: option.splits)
  next
    case (nameError err)
    with fail show ?thesis by (auto simp: startRunner_error split: option.splits)
  next
    case (requestPanic stepName p)
    with fail show ?thesis by (auto simp: startRunner_error split: option.splits)
  next
    case (requestError stepName runnerFiles err)
    with fail show ?thesis by (auto simp: startRunner_error split: option.splits)
  next
    case (succeeded stepName runnerFiles)
    with fail show ?thesis by (auto simp: startRunner_error split: option.splits)
  qed
  from c12 c3 specFiles_nonempty [OF rp wr] conceptFiles_nonempty [OF rp wr]
  show ?thesis by blast
qed

theorem runner_failure_keeps_document_changes_witness:
  "startRunnerAndMakeConnection sampleEnvRefused = None \<and>
   panicked (performRefactoringOn sampleEnvRefused sampleAgent sampleSpecs sampleDictionary) = None \<and>
   last (states (performRefactoringOn sampleEnvRefused sampleAgent sampleSpecs sampleDictionary)) =
     \<lparr>success = False, specsChanged = [''transfer.spec''], conceptsChanged = [''pay.cpt''],
      runnerFilesChanged = [],
      errors = [''Only spec files and concepts refactored: cannot rename''], warnings = []\<rparr> \<and>
   [f. EvSaveFile f t \<leftarrow> events (performRefactoringOn sampleEnvRefused sampleAgent sampleSpecs
                                    sampleDictionary)]
     = [''transfer.spec'', ''pay.cpt'']"
proof -
  let ?X = "rephraseInSpecsAndConcepts sampleEnvRefused sampleAgent sampleSpecs sampleDictionary"
  let ?agent1 = "fst ?X"
  let ?specs1 = "fst (snd ?X)"
  let ?dict1 = "fst (snd (snd ?X))"
  let ?sr = "fst (snd (snd (snd ?X)))"
  let ?cr = "fst (snd (snd (snd (snd ?X))))"
  let ?evs1 = "snd (snd (snd (snd (snd ?X))))"
  let ?W = "writeToConceptAndSpecFiles sampleEnvRefused ?specs1 ?dict1 ?sr ?cr"
  have rp: "?X = (?agent1, ?specs1, ?dict1, ?sr, ?cr, ?evs1)" by simp
  have wr: "?W = (fst ?W, fst (snd ?W), snd (snd ?W))" by simp
  have sf: "fst ?W = [''transfer.spec'']"
    by (simp add: sample_defs model_defs Let_def)
  have cf: "fst (snd ?W) = [''pay.cpt'']"
    by (simp add: sample_defs model_defs Let_def)
  have nr: "startRunnerAndMakeConnection sampleEnvRefused = None"
    by (simp add: sample_defs)
  have gn: "fst (getStepNameFromRunner sampleEnvRefused ?agent1) = Returns (Inr ''transfer {} to {}'')"
    by (simp add: sample_defs model_defs Let_def)
  have rq: "fst (requestRunnerForRefactoring sampleEnvRefused ?agent1 ''transfer {} to {}'')
              = Returns ([], Some ''cannot rename'')"
    by (simp add: sample_defs model_defs Let_def)
  have fail:
        "(\<exists>connErr. startRunnerAndMakeConnection sampleEnvRefused = Some connErr \<and>
                    ''Only spec files and concepts refactored: cannot rename''
                      = ''Failed to connect to test runner: '' @ connErr) \<or>
         (startRunnerAndMakeConnection sampleEnvRefused = None \<and>
            fst (getStepNameFromRunner sampleEnvRefused ?agent1)
              = Returns (Inl ''Only spec files and concepts refactored: cannot rename'')) \<or>
         (startRunnerAndMakeConnection sampleEnvRefused = None \<and>
            (\<exists>stepName runnerFiles err.
               fst (getStepNameFromRunner sampleEnvRefused ?agent1) = Returns (Inr stepName) \<and>
               fst (requestRunnerForRefactoring sampleEnvRefused ?agent1 stepName)
                 = Returns (runnerFiles, Some err) \<and>
               ''Only spec files and concepts refactored: cannot rename''
                 = ''Only spec files and concepts refactored: '' @ err))"
    using nr gn rq by simp
  from runner_failure_keeps_document_changes [OF rp wr fail] nr sf cf
  show ?thesis by simp
qed

subsection \<open>Only changed documents are listed and written\<close>

lemma enumerate_fileNames:
  "map fileName xs = map fileName ys \<Longrightarrow>
     map (\<lambda>(i, spec). fileName spec) (filter (\<lambda>(i, spec). P i) (enumerate n xs))
       = map (\<lambda>(i, spec). fileName spec) (filter (\<lambda>(i, spec). P i) (enumerate n ys))"
proof (induction xs arbitrary: ys n)
  case Nil
  then show ?case by simp
next
  case (Cons x xs)
  then obtain y ys' where ys: "ys = y # ys'" by (cases ys) auto
  with Cons.prems have "fileName x = fileName y" "map fileName xs = map fileName ys'" by simp_all
  with Cons.IH [of ys' "Suc n"] ys show ?case by simp
qed

text \<open>
  Claim C8. A specification's changed flag is true exactly when one of its step
  occurrences has the old step's text, and a concept file's flag exactly when a step item
  of one of its concepts has it, so a document with no occurrence of the old step has
  the flag false. The specs-changed list holds the file names of the specifications
  whose flag is true and of no other, the concepts-changed list the concept files whose
  flag is true and no other, and the files written during the whole of
  \<open>performRefactoringOn\<close> are those documents and no other: a document whose flag is
  false is neither listed nor written.
\<close>

theorem unchanged_documents_not_written:
  assumes rp: "rephraseInSpecsAndConcepts e agent specs dict
                 = (agent1, specs1, dict1, specsRefactored, conceptFilesRefactored, evs1)"
      and wr: "writeToConceptAndSpecFiles e specs1 dict1 specsRefactored conceptFilesRefactored
                 = (specFiles, conceptFiles, evs2)"
  shows "(\<forall>i < length specs. mapBool specsRefactored i
            = (\<exists>st \<in> set (occurrences (specs ! i)). val st = val (oldStep agent))) \<and>
         (\<forall>f. mapBool conceptFilesRefactored f
            = (\<exists>(key, concept) \<in> set (conceptsMap dict). conceptFileName concept = f \<and>
                 (\<exists>st. StepItem st \<in> set (conceptStepItems concept) \<and> val st = val (oldStep agent)))) \<and>
         specFiles = map (\<lambda>(i, spec). fileName spec)
                       (filter (\<lambda>(i, spec). mapBool specsRefactored i) (enumerate 0 specs)) \<and>
         conceptFiles = map fst (filter (\<lambda>(f, t). mapBool conceptFilesRefactored f)
                                   (formatConcepts e dict1)) \<and>
         filter isFileWrite (events (performRefactoringOn e agent specs dict))
           = map (\<lambda>(i, spec). EvSaveFile (fileName spec) (formatSpecification e spec))
               (filter (\<lambda>(i, spec). mapBool specsRefactored i) (enumerate 0 specs1))
             @ map (\<lambda>(f, t). EvSaveFile f t)
                 (filter (\<lambda>(f, t). mapBool conceptFilesRefactored f) (formatConcepts e dict1)) \<and>
         (\<forall>s \<in> set (states (performRefactoringOn e agent specs dict)).
            specsChanged s = specFiles \<and> conceptsChanged s = conceptFiles)"
proof -
  note r = rephraseInSpecsAndConcepts_result [OF rp]
  note w = writeToConceptAndSpecFiles_result [OF wr]
  have sf: "specFiles = map (\<lambda>(i, spec). fileName spec)
                       (filter (\<lambda>(i, spec). mapBool specsRefactored i) (enumerate 0 specs))"
    unfolding w(1) by (rule enumerate_fileNames [OF r(2)])
  have ev: "filter isFileWrite (events (performRefactoringOn e agent specs dict))
           = map (\<lambda>(i, spec). EvSaveFile (fileName spec) (formatSpecification e spec))
               (filter (\<lambda>(i, spec). mapBool specsRefactored i) (enumerate 0 specs1))
             @ map (\<lambda>(f, t). EvSaveFile f t)
                 (filter (\<lambda>(f, t). mapBool conceptFilesRefactored f) (formatConcepts e dict1))"
    unfolding performRefactoringOn_writes(1) [OF rp wr] by (rule w(3))
  from r(3) r(4) sf w(2) ev performRefactoringOn_writes(2) [OF rp wr]
  show ?thesis by blast
qed

theorem unchanged_documents_not_written_witness:
  "\<not> mapBool (fst (snd (snd (snd (rephraseInSpecsAndConcepts sampleEnv sampleAgent sampleSpecs
                                    sampleDictionary))))) 1 \<and>
   \<not> mapBool (fst (snd (snd (snd (snd (rephraseInSpecsAndConcepts sampleEnv sampleAgent sampleSpecs
                                    sampleDictionary)))))) ''greet.cpt'' \<and>
   specsChanged (last (states (performRefactoringOn sampleEnv sampleAgent sampleSpecs sampleDictionary)))
     = [''transfer.spec''] \<and>
   conceptsChanged (last (states (performRefactoringOn sampleEnv sampleAgent sampleSpecs sampleDictionary)))
     = [''pay.cpt''] \<and>
   filter isFileWrite (events (performRefactoringOn sampleEnv sampleAgent sampleSpecs sampleDictionary))
     = [EvSaveFile ''transfer.spec'' ''open account {}transfer {} from {}'',
        EvSaveFile ''pay.cpt'' ''pay {}'']"
proof -
  let ?X = "rephraseInSpecsAndConcepts sampleEnv sampleAgent sampleSpecs sampleDictionary"
  let ?agent1 = "fst ?X"
  let ?specs1 = "fst (snd ?X)"
  let ?dict1 = "fst (snd (snd ?X))"
  let ?sr = "fst (snd (snd (snd ?X)))"
  let ?cr = "fst (snd (snd (snd (snd ?X))))"
  let ?evs1 = "snd (snd (snd (snd (snd ?X))))"
  let ?W = "writeToConceptAndSpecFiles sampleEnv ?specs1 ?dict1 ?sr ?cr"
  have rp: "?X = (?agent1, ?specs1, ?dict1, ?sr, ?cr, ?evs1)" by simp
  have wr: "?W = (fst ?W, fst (snd ?W), snd (snd ?W))" by simp
  note t = unchanged_documents_not_written [OF rp wr]
  have l: "(1::nat) < length sampleSpecs" by (simp add: sampleSpecs_def)
  have n1: "\<not> (\<exists>st \<in> set (occurrences (sampleSpecs ! 1)). val st = val (oldStep sampleAgent))"
    by (simp add: sampleSpecs_def sampleOtherStep_def sampleAgent_def sampleOldStep_def)
  from t l have "mapBool ?sr 1
      = (\<exists>st \<in> set (occurrences (sampleSpecs ! 1)). val st = val (oldStep sampleAgent))"
    by blast
  with n1 have c1: "\<not> mapBool ?sr 1" by blast
  have n2: "\<not> (\<exists>(key, concept) \<in> set (conceptsMap sampleDictionary).
                 conceptFileName concept = ''greet.cpt'' \<and>
                 (\<exists>st. StepItem st \<in> set (conceptStepItems concept) \<and> val st = val (oldStep sampleAgent)))"
    by (simp add: sampleDictionary_def sampleOtherStep_def sampleAgent_def sampleOldStep_def)
  from t have "mapBool ?cr ''greet.cpt''
      = (\<exists>(key, concept) \<in> set (conceptsMap sampleDictionary). conceptFileName concept = ''greet.cpt'' \<and>
           (\<exists>st. StepItem st \<in> set (conceptStepItems concept) \<and> val st = val (oldStep sampleAgent)))"
    by blast
  with n2 have c2: "\<not> mapBool ?cr ''greet.cpt''" by blast
  have c3: "specsChanged (last (states (performRefactoringOn sampleEnv sampleAgent sampleSpecs sampleDictionary)))
     = [''transfer.spec'']"
    by (simp add: sample_states)
  have c4: "conceptsChanged (last (states (performRefactoringOn sampleEnv sampleAgent sampleSpecs sampleDictionary)))
     = [''pay.cpt'']"
    by (simp add: sample_states)
  have c5: "filter isFileWrite (events (performRefactoringOn sampleEnv sampleAgent sampleSpecs sampleDictionary))
     = [EvSaveFile ''transfer.spec'' ''open account {}transfer {} from {}'',
        EvSaveFile ''pay.cpt'' ''pay {}'']"
    by (simp add: sample_defs model_defs Let_def)
  from c1 c2 c3 c4 c5 show ?thesis by blast
qed

subsection \<open>The pre-check\<close>

lemma addErrorsAndWarnings_fields:
  "success (addErrorsAndWarningsToRefactoringResult r prs) = (success r \<and> (\<forall>p \<in> set prs. ok p))"
  "errors (addErrorsAndWarningsToRefactoringResult r prs)
     = errors r @ map parseError (filter (\<lambda>p. \<not> ok p) prs)"
  "warnings (addErrorsAndWarningsToRefactoringResult r prs)
     = warnings r @ concat (map (\<lambda>p. map message (parseWarnings p)) prs)"
  "specsChanged (addErrorsAndWarningsToRefactoringResult r prs) = specsChanged r"
  "conceptsChanged (addErrorsAndWarningsToRefactoringResult r prs) = conceptsChanged r"
  "runnerFilesChanged (addErrorsAndWarningsToRefactoringResult r prs) = runnerFilesChanged r"
  by (induction prs arbitrary: r; simp add: appendWarnings_def; blast?)+

lemma getRefactorAgent_loop_events:
  "\<forall>ev \<in> set (snd (getRefactorAgent_loop e toks steps)). isParsingOrDiscovery ev"
proof (induction toks arbitrary: steps)
  case Nil
  show ?case by simp
next
  case (Cons tok rest)
  show ?case
  proof (cases "createStepUsingLookup e tok")
    case (Inl err)
    then show ?thesis by simp
  next
    case (Inr st)
    obtain r evs where lp: "getRefactorAgent_loop e rest (steps @ [st]) = (r, evs)"
      by (cases "getRefactorAgent_loop e rest (steps @ [st])") auto
    with Cons.IH [of "steps @ [st]"] have "\<forall>ev \<in> set evs. isParsingOrDiscovery ev" by simp
    with Inr lp show ?thesis by simp
  qed
qed

lemma getRefactorAgent_events:
  "\<forall>ev \<in> set (snd (getRefactorAgent e oldStepText newStepText)). isParsingOrDiscovery ev"
proof -
  have "\<forall>ev \<in> set evs. isParsingOrDiscovery ev"
    if "getRefactorAgent_loop e toks [] = (r, evs)" for toks r evs
    using getRefactorAgent_loop_events [of e toks "[]"] that by simp
  then show ?thesis
    by (auto simp: getRefactorAgent_def Let_def split: sum.splits prod.splits list.splits)
qed


text \<open>
  Claim C4. When \<open>performRephraseRefactoring\<close> has its agent and its project root and
  the parse of a specification or of the concept dictionary fails, it returns at once
  the result that carries the errors of the failed parses and the warnings of the parses
  made so far, with \<open>success\<close> false and no file listed; the calls made are those of
  parsing and discovery only: no document was rewritten, no file written and no runner
  contacted.
\<close>

theorem parse_failure_short_circuits:
  assumes ne: "newStepText \<noteq> oldStepText"
      and ag: "getRefactorAgent e oldStepText newStepText = (Returns (Inr agent), evs0)"
      and root: "GetProjectRoot e = Inr projectRoot"
      and fs: "findSpecs e projectRoot = (specs, specParseResults)"
      and cd: "createConceptsDictionary e = (conceptDictionary, parseResult)"
      and fail: "(\<exists>p \<in> set specParseResults. \<not> ok p) \<or> \<not> ok parseResult"
      and seen: "seen = (if \<exists>p \<in> set specParseResults. \<not> ok p then specParseResults
                         else specParseResults @ [parseResult])"
  shows "\<exists>evs. performRephraseRefactoring e oldStepText newStepText =
                 (Returns \<lparr>success = False, specsChanged = [], conceptsChanged = [],
                           runnerFilesChanged = [],
                           errors = map parseError (filter (\<lambda>p. \<not> ok p) seen),
                           warnings = concat (map (\<lambda>p. map message (parseWarnings p)) seen)\<rparr>,
                  evs) \<and>
               evs = evs0 @ (if \<exists>p \<in> set specParseResults. \<not> ok p
                             then [EvGetProjectRoot, EvFindSpecs projectRoot]
                             else [EvGetProjectRoot, EvFindSpecs projectRoot,
                                   EvCreateConceptsDictionary]) \<and>
               (\<forall>ev \<in> set evs. isParsingOrDiscovery ev \<and> \<not> isDocumentMutation ev \<and>
                                 \<not> isFileWrite ev \<and> \<not> isRunnerContact ev)"
proof -
  let ?r0 = "\<lparr>success = True, specsChanged = [], conceptsChanged = [],
              runnerFilesChanged = [], errors = [], warnings = []\<rparr>"
  let ?r1 = "addErrorsAndWarningsToRefactoringResult ?r0 specParseResults"
  let ?r2 = "addErrorsAndWarningsToRefactoringResult ?r1 [parseResult]"
  from getRefactorAgent_events [of e oldStepText newStepText] ag
  have e0: "\<forall>ev \<in> set evs0. isParsingOrDiscovery ev" by simp
  have pd: "\<not> isDocumentMutation ev \<and> \<not> isFileWrite ev \<and> \<not> isRunnerContact ev"
    if "isParsingOrDiscovery ev" for ev
    using that by (cases ev) simp_all
  have req: "r = \<lparr>success = success r, specsChanged = specsChanged r,
                   conceptsChanged = conceptsChanged r, runnerFilesChanged = runnerFilesChanged r,
                   errors = errors r, warnings = warnings r\<rparr>" for r :: refactoringResult
    by simp
  show ?thesis
  proof (cases "\<exists>p \<in> set specParseResults. \<not> ok p")
    case True
    then have s1: "\<not> success ?r1" unfolding addErrorsAndWarnings_fields by simp
    have r1: "?r1 = \<lparr>success = False, specsChanged = [], conceptsChanged = [],
                           runnerFilesChanged = [],
                           errors = map parseError (filter (\<lambda>p. \<not> ok p) seen),
                           warnings = concat (map (\<lambda>p. map message (parseWarnings p)) seen)\<rparr>"
      using True seen by (subst req [of ?r1], unfold addErrorsAndWarnings_fields) simp
    have "performRephraseRefactoring e oldStepText newStepText
            = (Returns ?r1, evs0 @ [EvGetProjectRoot, EvFindSpecs projectRoot])"
      using ne s1 by (simp add: performRephraseRefactoring_def ag root fs Let_def del: addErrorsAndWarningsToRefactoringResult.simps)
    with r1 True e0 pd show ?thesis by auto
  next
    case False
    then have s1: "success ?r1" unfolding addErrorsAndWarnings_fields by simp
    from False fail have nok: "\<not> ok parseResult" by blast
    then have s2: "\<not> success ?r2" unfolding addErrorsAndWarnings_fields by simp
    have r2: "?r2 = \<lparr>success = False, specsChanged = [], conceptsChanged = [],
                           runnerFilesChanged = [],
                           errors = map parseError (filter (\<lambda>p. \<not> ok p) seen),
                           warnings = concat (map (\<lambda>p. map message (parseWarnings p)) seen)\<rparr>"
      using False seen nok by (subst req [of ?r2], unfold addErrorsAndWarnings_fields) simp
    have "performRephraseRefactoring e oldStepText newStepText
            = (Returns ?r2, evs0 @ [EvGetProjectRoot, EvFindSpecs projectRoot,
                                    EvCreateConceptsDictionary])"
      using ne s1 s2 by (simp add: performRephraseRefactoring_def ag root fs cd Let_def del: addErrorsAndWarningsToRefactoringResult.simps)
    with r2 False e0 pd show ?thesis by auto
  qed
qed

lemma sample_agent:
  "getRefactorAgent sampleEnvBadSpec ''transfer <from> to <to>'' ''transfer <to> from <from>''
     = (Returns (Inr sampleAgent),
        [EvGenerateTokens (''* transfer <from> to <to>'' @ [CHR 0x0A] @ ''*transfer <to> from <from>''),
         EvCreateStepUsingLookup, EvCreateStepUsingLookup])"
  by (simp add: getRefactorAgent_def sampleEnvBadSpec_def sampleEnv_def sampleAgent_def)

theorem parse_failure_short_circuits_witness:
  "performRephraseRefactoring sampleEnvBadSpec ''transfer <from> to <to>'' ''transfer <to> from <from>''
     = (Returns \<lparr>success = False, specsChanged = [], conceptsChanged = [], runnerFilesChanged = [],
                 errors = [''line no: 3, Step is not defined''], warnings = [''unused table'']\<rparr>,
        [EvGenerateTokens (''* transfer <from> to <to>'' @ [CHR 0x0A] @ ''*transfer <to> from <from>''),
         EvCreateStepUsingLookup, EvCreateStepUsingLookup, EvGetProjectRoot, EvFindSpecs ''/project''])"
proof -
  let ?prs = "[\<lparr>ok = False, parseError = ''line no: 3, Step is not defined'',
                 parseWarnings = [\<lparr>message = ''unused table''\<rparr>]\<rparr>,
               \<lparr>ok = True, parseError = [], parseWarnings = []\<rparr>]"
  have ne: "''transfer <to> from <from>'' \<noteq> ''transfer <from> to <to>''" by simp
  have root: "GetProjectRoot sampleEnvBadSpec = Inr ''/project''"
    by (simp add: sampleEnvBadSpec_def sampleEnv_def)
  have fs: "findSpecs sampleEnvBadSpec ''/project'' = (sampleSpecs, ?prs)"
    by (simp add: sampleEnvBadSpec_def sampleEnv_def)
  have cd: "createConceptsDictionary sampleEnvBadSpec
              = (sampleDictionary, \<lparr>ok = True, parseError = [], parseWarnings = []\<rparr>)"
    by (simp add: sampleEnvBadSpec_def sampleEnv_def)
  have fail: "(\<exists>p \<in> set ?prs. \<not> ok p) \<or> \<not> ok \<lparr>ok = True, parseError = [], parseWarnings = []\<rparr>"
    by simp
  have seen: "?prs = (if \<exists>p \<in> set ?prs. \<not> ok p then ?prs
                      else ?prs @ [\<lparr>ok = True, parseError = [], parseWarnings = []\<rparr>])"
    by simp
  from parse_failure_short_circuits [OF ne sample_agent root fs cd fail seen]
  show ?thesis by simp
qed

end
